theory Spec2Isabelle
  imports Main "HOL-Library.Word"
begin

unbundle bit_operations_syntax

section \<open>Data model\<close>

type_synonym u8 = "8 word"
type_synonym u32 = "32 word"
type_synonym bytes = "u8 list"

text \<open>
  The cryptographic primitives are external libraries (blake2s of the platform library,
  p256-m, sha-256). They are parameters of the model. \<open>blake2s P outlen key inp\<close> is the
  output buffer of \<^verbatim>\<open>blake2s(out, outlen, key, keylen, in, inlen, ctx)\<close>; the two P-256
  functions return their \<^verbatim>\<open>int\<close> code together with the buffer they fill.
\<close>

record prims =
  blake2s :: "nat \<Rightarrow> bytes \<Rightarrow> bytes \<Rightarrow> bytes"
  p256_keypair_from_bytes :: "bytes \<Rightarrow> int \<times> bytes"
  p256_ecdsa_sign :: "bytes \<Rightarrow> bytes \<Rightarrow> nat \<Rightarrow> int \<times> bytes"
  calc_sha_256 :: "bytes \<Rightarrow> nat \<Rightarrow> bytes"

text \<open>The contract of the primitives that the code relies on: the size of what they write.\<close>

definition prims_ok :: "prims \<Rightarrow> bool" where
  "prims_ok P \<longleftrightarrow>
     (\<forall>n key inp. length (blake2s P n key inp) = n) \<and>
     (\<forall>priv. length (snd (p256_keypair_from_bytes P priv)) = 64) \<and>
     (\<forall>priv h n. length (snd (p256_ecdsa_sign P priv h n)) = 64) \<and>
     (\<forall>m n. length (calc_sha_256 P m n) = 32)"

text \<open>
  Bit positions of the memory-mapped registers, from the platform header
  \<^verbatim>\<open>tk1_mem.h\<close>, which is not part of the repository: they are parameters.
\<close>

record tk1_mem =
  TK1_MMIO_TK1_LED_R_BIT :: nat
  TK1_MMIO_TK1_LED_G_BIT :: nat
  TK1_MMIO_TK1_LED_B_BIT :: nat
  TK1_MMIO_TIMER_CTRL_START_BIT :: nat
  TK1_MMIO_TIMER_CTRL_STOP_BIT :: nat
  TK1_MMIO_TIMER_STATUS_RUNNING_BIT :: nat
  TK1_MMIO_TOUCH_STATUS_EVENT_BIT :: nat

text \<open>Every call of an external primitive is recorded, in order.\<close>

datatype ext_call =
  Call_blake2s nat bytes bytes
  | Call_p256_keypair_from_bytes bytes
  | Call_p256_ecdsa_sign bytes bytes nat
  | Call_calc_sha_256 bytes nat

text \<open>
  What the hardware does at one iteration of the polling loop of \<^verbatim>\<open>wait_touched\<close>:
  the value the timer status register shows, and whether the sensor raises a touch event.
\<close>

record poll =
  timer_status :: u32
  touch_event :: bool

text \<open>
  The state of the device: the static variables of \<^verbatim>\<open>u2f.c\<close> (\<open>secret\<close>) and
  \<^verbatim>\<open>rng.c\<close> (\<open>ctr\<close>, \<open>state\<close> of \<^verbatim>\<open>ctx\<close>), the registers the code writes, and
  the environment: the polls of the touch gate still to come, and the reads of the TRNG
  status register still to come, each with the entropy word it offers.
  The static buffers \<^verbatim>\<open>digest\<close> and \<^verbatim>\<open>b2s_ctx\<close> of \<^verbatim>\<open>rng.c\<close> are scratch space:
  each call of \<^verbatim>\<open>blake2s\<close> overwrites them before they are read.
\<close>

record dev =
  secret :: "u32 list"
  ctr :: u32
  state :: "u32 list"
  led :: u32
  touch :: u32
  timer_ctrl :: u32
  timer_prescaler :: u32
  timer :: u32
  touch_polls :: "poll list"
  trng_polls :: "(u32 \<times> u32) list"
  calls :: "ext_call list"

definition log_call :: "ext_call \<Rightarrow> dev \<Rightarrow> dev" where
  "log_call c s = s\<lparr>calls := calls s @ [c]\<rparr>"

subsection \<open>Memory\<close>

text \<open>The device is a little-endian RV32: a word is four bytes, the lowest first.\<close>

definition w32_bytes :: "u32 \<Rightarrow> bytes" where
  "w32_bytes w = [ucast w, ucast (drop_bit 8 w), ucast (drop_bit 16 w), ucast (drop_bit 24 w)]"

definition bytes_w32 :: "bytes \<Rightarrow> u32" where
  "bytes_w32 bs = ucast (bs ! 0) OR push_bit 8 (ucast (bs ! 1)) OR
     push_bit 16 (ucast (bs ! 2)) OR push_bit 24 (ucast (bs ! 3))"

definition words_bytes :: "u32 list \<Rightarrow> bytes" where
  "words_bytes ws = concat (map w32_bytes ws)"

definition bytes_words :: "bytes \<Rightarrow> u32 list" where
  "bytes_words bs = map (\<lambda>i. bytes_w32 (take 4 (drop (4 * i) bs))) [0..<length bs div 4]"

text \<open>\<^verbatim>\<open>memcpy(dst + doff, src + soff, n)\<close>, all of it inside both buffers.\<close>

definition memcpy :: "bytes \<Rightarrow> nat \<Rightarrow> bytes \<Rightarrow> nat \<Rightarrow> nat \<Rightarrow> bytes" where
  "memcpy dst doff src soff n = take doff dst @ take n (drop soff src) @ drop (doff + n) dst"

text \<open>A counted loop whose body may block for ever.\<close>

fun for_loop :: "(nat \<Rightarrow> 'a \<Rightarrow> 'a option) \<Rightarrow> nat list \<Rightarrow> 'a \<Rightarrow> 'a option" where
  "for_loop body [] a = Some a"
| "for_loop body (i # is) a =
     (case body i a of None \<Rightarrow> None | Some a' \<Rightarrow> for_loop body is a')"

section \<open>rng.c\<close>

definition RESEED_TIME :: u32 where
  "RESEED_TIME = 1000"

text \<open>
  \<^verbatim>\<open>get_w32_entropy\<close> spins until the TRNG status register reads non-zero, then reads
  the entropy register. \<open>None\<close>: the status never turns non-zero.
\<close>

fun trng_wait :: "(u32 \<times> u32) list \<Rightarrow> (u32 \<times> (u32 \<times> u32) list) option" where
  "trng_wait [] = None"
| "trng_wait ((status, entropy) # ps) =
     (if status = 0 then trng_wait ps else Some (entropy, ps))"

definition get_w32_entropy :: "dev \<Rightarrow> (u32 \<times> dev) option" where
  "get_w32_entropy s =
     (case trng_wait (trng_polls s) of
        None \<Rightarrow> None
      | Some (w, ps) \<Rightarrow> Some (w, s\<lparr>trng_polls := ps\<rparr>))"

text \<open>\<^verbatim>\<open>rng_init_state\<close>; \<open>cdi\<close> is what the eight CDI registers hold.\<close>

definition rng_init_state :: "u32 list \<Rightarrow> dev \<Rightarrow> dev option" where
  "rng_init_state cdi s =
     (case for_loop (\<lambda>i s. case get_w32_entropy (s\<lparr>state := (state s)[i := cdi ! i]\<rparr>) of
                              None \<Rightarrow> None
                            | Some (w, s) \<Rightarrow> Some (s\<lparr>state := (state s)[i + 8 := w]\<rparr>))
             [0..<8] s of
        None \<Rightarrow> None
      | Some s \<Rightarrow> Some (s\<lparr>ctr := 0\<rparr>))"

definition update_rng_state :: "u32 list \<Rightarrow> dev \<Rightarrow> dev option" where
  "update_rng_state digest s =
     (let s = fold (\<lambda>i s. s\<lparr>state := (state s)[i := digest ! i]\<rparr>) [0..<8] s;
          s = s\<lparr>ctr := ctr s + 1\<rparr>;
          s = s\<lparr>state := (state s)[15 := state s ! 15 + ctr s]\<rparr>
      in if ctr s = RESEED_TIME then
           (case for_loop (\<lambda>i s. case get_w32_entropy s of
                                    None \<Rightarrow> None
                                  | Some (w, s) \<Rightarrow> Some (s\<lparr>state := (state s)[i + 8 := w]\<rparr>))
                   [0..<8] s of
              None \<Rightarrow> None
            | Some s \<Rightarrow> Some (s\<lparr>ctr := 0\<rparr>))
         else Some s)"

definition output_w32 :: "bytes \<Rightarrow> nat \<Rightarrow> u32 \<Rightarrow> bytes" where
  "output_w32 output off w =
     (let output = output[off := ucast (drop_bit 24 w)];
          output = output[off + 1 := ucast (drop_bit 16 w AND 0xff)];
          output = output[off + 2 := ucast (drop_bit 8 w AND 0xff)];
          output = output[off + 3 := ucast (w AND 0xff)]
      in output)"

text \<open>One iteration of the loop of \<^verbatim>\<open>rng_generate\<close>, for block \<open>b\<close>.\<close>

definition rng_block :: "prims \<Rightarrow> nat \<Rightarrow> bytes \<times> dev \<Rightarrow> (bytes \<times> dev) option" where
  "rng_block P b os =
     (let (output, s) = os;
          inp = words_bytes (state s);
          digest = bytes_words (blake2s P 32 [] inp);
          s = log_call (Call_blake2s 32 [] inp) s;
          output = fold (\<lambda>i output. output_w32 output (b * 16 + i * 4) (digest ! i)) [0..<4] output
      in case update_rng_state digest s of
           None \<Rightarrow> None
         | Some s \<Rightarrow> Some (output, s))"

text \<open>
  \<^verbatim>\<open>rng_generate(output, output_size)\<close>: the return code, the output buffer and the
  state. \<open>output_size\<close> is an \<^verbatim>\<open>unsigned\<close>.
\<close>

definition rng_generate :: "prims \<Rightarrow> bytes \<Rightarrow> u32 \<Rightarrow> dev \<Rightarrow> (int \<times> bytes \<times> dev) option" where
  "rng_generate P output output_size s =
     (if output_size = 0 then Some (0, output, s)
      else if unat output_size mod 16 \<noteq> 0 then Some (- 1, output, s)
      else case for_loop (rng_block P) [0..<unat output_size div 16] (output, s) of
             None \<Rightarrow> None
           | Some (output, s) \<Rightarrow> Some (0, output, s))"

section \<open>u2f.c\<close>

definition LED_BLACK :: u32 where
  "LED_BLACK = 0"

definition LED_RED :: "tk1_mem \<Rightarrow> u32" where
  "LED_RED M = push_bit (TK1_MMIO_TK1_LED_R_BIT M) 1"

definition LED_GREEN :: "tk1_mem \<Rightarrow> u32" where
  "LED_GREEN M = push_bit (TK1_MMIO_TK1_LED_G_BIT M) 1"

definition LED_BLUE :: "tk1_mem \<Rightarrow> u32" where
  "LED_BLUE M = push_bit (TK1_MMIO_TK1_LED_B_BIT M) 1"

definition U2F_TOUCH_TIMEOUT_SECS :: u32 where
  "U2F_TOUCH_TIMEOUT_SECS = 10"

definition TKEY_HZ :: u32 where
  "TKEY_HZ = 18000000"

definition U2F_REGISTER_LEDVALUE :: "tk1_mem \<Rightarrow> u32" where
  "U2F_REGISTER_LEDVALUE M = LED_BLUE M"

definition U2F_AUTHENTICATE_LEDVALUE :: "tk1_mem \<Rightarrow> u32" where
  "U2F_AUTHENTICATE_LEDVALUE M = LED_GREEN M"

definition loopcount :: nat where
  "loopcount = 130000"

text \<open>\<^verbatim>\<open>u2f_init\<close>: \<^verbatim>\<open>wordcpy(secret, cdi, 8)\<close>.\<close>

definition u2f_init :: "u32 list \<Rightarrow> dev \<Rightarrow> dev" where
  "u2f_init cdi s = s\<lparr>secret := take 8 cdi\<rparr>"

text \<open>
  Modelled from the spec: the touch status register, which is hardware. It holds a
  latched event bit: a touch event the sensor raises sets the bit, and it stays set until
  the software writes the register (spec 4.2: "Clears any latched touch event",
  "Returns true on touch (also clearing the latch)"). \<open>sense M p s\<close> is the register
  after the hardware's part of poll \<open>p\<close>.
\<close>

definition sense :: "tk1_mem \<Rightarrow> poll \<Rightarrow> dev \<Rightarrow> dev" where
  "sense M p s =
     (if touch_event p
      then s\<lparr>touch := touch s OR push_bit (TK1_MMIO_TOUCH_STATUS_EVENT_BIT M) 1\<rparr>
      else s)"

text \<open>
  The two loops of \<^verbatim>\<open>wait_touched\<close>, at inner index \<open>i\<close> with the LED phase \<open>led_on\<close>.
  One pass of the inner loop is one poll: the hardware acts (\<open>sense\<close>), then the code
  reads the timer status and, if the timer runs, the touch status. When the inner loop
  ends, \<open>led_on\<close> flips and the next round of the outer loop writes the LED and starts the
  inner loop again; the LED write of the first round is the last update before the loop in
  \<open>wait_touched\<close> below. \<open>None\<close>: neither exit is ever taken.
\<close>

function wait_loop :: "tk1_mem \<Rightarrow> u32 \<Rightarrow> bool \<Rightarrow> nat \<Rightarrow> dev \<Rightarrow> (int \<times> dev) option" where
  "wait_loop M ledvalue led_on i s =
     (if i < loopcount then
        (case touch_polls s of
           [] \<Rightarrow> None
         | p # ps \<Rightarrow>
             if timer_status p AND push_bit (TK1_MMIO_TIMER_STATUS_RUNNING_BIT M) 1 = 0
             then Some (0, sense M p (s\<lparr>touch_polls := ps\<rparr>))
             else if touch (sense M p s) AND push_bit (TK1_MMIO_TOUCH_STATUS_EVENT_BIT M) 1 \<noteq> 0
             then Some (1, (sense M p (s\<lparr>touch_polls := ps\<rparr>))\<lparr>touch := 0\<rparr>)
             else wait_loop M ledvalue led_on (i + 1) (sense M p (s\<lparr>touch_polls := ps\<rparr>)))
      else wait_loop M ledvalue (\<not> led_on) 0
             (s\<lparr>led := (if \<not> led_on then ledvalue else LED_BLACK)\<rparr>))"
  by pat_completeness auto
termination
  by (relation "measures [\<lambda>(M, ledvalue, led_on, i, s). length (touch_polls s),
                          \<lambda>(M, ledvalue, led_on, i, s). if i < loopcount then 0 else 1]")
     (auto simp: sense_def loopcount_def)

declare wait_loop.simps [simp del]

definition wait_touched :: "tk1_mem \<Rightarrow> u32 \<Rightarrow> dev \<Rightarrow> (int \<times> dev) option" where
  "wait_touched M ledvalue s =
     (let s = s\<lparr>timer_ctrl := push_bit (TK1_MMIO_TIMER_CTRL_STOP_BIT M) 1\<rparr>;
          s = s\<lparr>timer_prescaler := TKEY_HZ\<rparr>;
          s = s\<lparr>timer := U2F_TOUCH_TIMEOUT_SECS\<rparr>;
          s = s\<lparr>timer_ctrl := push_bit (TK1_MMIO_TIMER_CTRL_START_BIT M) 1\<rparr>;
          s = s\<lparr>touch := 0\<rparr>;
          s = s\<lparr>led := LED_BLACK\<rparr>
      in case wait_loop M ledvalue False 0 s of
           None \<Rightarrow> None
         | Some (touched, s) \<Rightarrow> Some (touched, s\<lparr>led := LED_BLACK\<rparr>))"

text \<open>
  A pointer argument is the buffer from the address on: the functions below read the
  first bytes of their arguments, as many as the source does. The local \<^verbatim>\<open>in\<close> of
  \<^verbatim>\<open>blake2s_mac\<close> starts as zeros here; the two copies cover its 64 bytes.
\<close>

definition blake2s_mac :: "prims \<Rightarrow> bytes \<Rightarrow> bytes \<Rightarrow> dev \<Rightarrow> bytes \<times> dev" where
  "blake2s_mac P part1 part2 s =
     (let inp = memcpy (replicate 64 0) 0 part1 0 32;
          inp = memcpy inp 32 part2 0 32;
          key = take 32 (words_bytes (secret s))
      in (blake2s P 32 key inp, log_call (Call_blake2s 32 key inp) s))"

text \<open>
  \<^verbatim>\<open>u2f_register(output, appli_param)\<close>: the return code, the output buffer and the state.
  The local \<^verbatim>\<open>nonce\<close> starts as zeros here; \<^verbatim>\<open>rng_generate(nonce, 32)\<close> writes each of
  its bytes.
\<close>

definition u2f_register :: "prims \<Rightarrow> tk1_mem \<Rightarrow> bytes \<Rightarrow> bytes \<Rightarrow> dev \<Rightarrow> (int \<times> bytes \<times> dev) option" where
  "u2f_register P M output appli_param s =
     (case wait_touched M (U2F_REGISTER_LEDVALUE M) s of
        None \<Rightarrow> None
      | Some (user_presence, s) \<Rightarrow>
          if user_presence = 0 then Some (0, output[0 := 0], s)
          else
            (case rng_generate P (replicate 32 0) 32 (s\<lparr>led := U2F_REGISTER_LEDVALUE M\<rparr>) of
               None \<Rightarrow> None
             | Some (_, nonce, s) \<Rightarrow>
                 let (priv, s) = blake2s_mac P appli_param nonce s;
                     (ret, pub) = p256_keypair_from_bytes P priv;
                     s = log_call (Call_p256_keypair_from_bytes priv) s
                 in if ret \<noteq> 0 then Some (ret, output, s)
                    else
                      let (mac, s) = blake2s_mac P appli_param priv s;
                          output = output[0 := word_of_int user_presence];
                          output = memcpy output 1 nonce 0 32;
                          output = memcpy output (1 + 32) mac 0 32;
                          output = memcpy output (1 + 32 + 32) pub 0 64
                      in Some (0, output, s)))"

text \<open>The comparison loop of \<^verbatim>\<open>u2f_checkonly\<close> and \<^verbatim>\<open>u2f_authenticate\<close>.\<close>

definition keyhandle_check :: "bytes \<Rightarrow> bytes \<Rightarrow> int" where
  "keyhandle_check mac macAgain =
     fold (\<lambda>i keyhandle_valid. if mac ! i \<noteq> macAgain ! i then 0 else keyhandle_valid) [0..<32] 1"

definition u2f_checkonly :: "prims \<Rightarrow> bytes \<Rightarrow> bytes \<Rightarrow> bytes \<Rightarrow> dev \<Rightarrow> bytes \<times> dev" where
  "u2f_checkonly P payload appli_param keyhandle s =
     (let nonce = keyhandle;
          mac = drop 32 keyhandle;
          (priv, s) = blake2s_mac P appli_param nonce s;
          (macAgain, s) = blake2s_mac P appli_param priv s;
          keyhandle_valid = keyhandle_check mac macAgain
      in (payload[0 := word_of_int keyhandle_valid], s))"

text \<open>
  Lines 252 to 276 of \<^verbatim>\<open>u2f_authenticate\<close>: the signature, once the key handle is valid
  and \<open>user_presence\<close> is settled. The local \<^verbatim>\<open>sig_data\<close> starts as zeros here; the four
  writes cover its 69 bytes.
\<close>

definition authenticate_sign ::
  "prims \<Rightarrow> tk1_mem \<Rightarrow> bytes \<Rightarrow> bytes \<Rightarrow> bytes \<Rightarrow> bytes \<Rightarrow> bytes \<Rightarrow> int \<Rightarrow> u8 \<Rightarrow> dev
     \<Rightarrow> int \<times> bytes \<times> dev" where
  "authenticate_sign P M payload appli_param chall_param counter priv keyhandle_valid user_presence s =
     (let s = s\<lparr>led := U2F_AUTHENTICATE_LEDVALUE M\<rparr>;
          sig_data = memcpy (replicate (32 + 1 + 4 + 32) 0) 0 appli_param 0 32;
          sig_data = sig_data[32 := user_presence];
          sig_data = memcpy sig_data (32 + 1) counter 0 4;
          sig_data = memcpy sig_data (32 + 1 + 4) chall_param 0 32;
          hash = calc_sha_256 P sig_data (32 + 1 + 4 + 32);
          s = log_call (Call_calc_sha_256 sig_data (32 + 1 + 4 + 32)) s;
          (res, sig) = p256_ecdsa_sign P priv hash 32;
          s = log_call (Call_p256_ecdsa_sign priv hash 32) s
      in if res \<noteq> 0 then (res, payload, s)
         else
           let payload = payload[0 := word_of_int keyhandle_valid];
               payload = payload[1 := user_presence];
               payload = memcpy payload 2 sig 0 64
           in (0, payload, s))"

text \<open>
  \<^verbatim>\<open>u2f_authenticate(payload, appli_param, chall_param, keyhandle, check_user, counter)\<close>:
  the return code, the payload buffer and the state.
\<close>

definition u2f_authenticate ::
  "prims \<Rightarrow> tk1_mem \<Rightarrow> bytes \<Rightarrow> bytes \<Rightarrow> bytes \<Rightarrow> bytes \<Rightarrow> bytes \<Rightarrow> bytes \<Rightarrow> dev
     \<Rightarrow> (int \<times> bytes \<times> dev) option" where
  "u2f_authenticate P M payload appli_param chall_param keyhandle check_user counter s =
     (let nonce = keyhandle;
          mac = drop 32 keyhandle;
          (priv, s) = blake2s_mac P appli_param nonce s;
          (macAgain, s) = blake2s_mac P appli_param priv s;
          keyhandle_valid = keyhandle_check mac macAgain
      in if keyhandle_valid = 0 then Some (0, payload[0 := word_of_int keyhandle_valid], s)
         else if check_user ! 0 \<noteq> 0 then
           (case wait_touched M (U2F_AUTHENTICATE_LEDVALUE M) s of
              None \<Rightarrow> None
            | Some (touched, s) \<Rightarrow>
                if touched = 0
                then Some (0, payload[0 := word_of_int keyhandle_valid, 1 := 0], s)
                else Some (authenticate_sign P M payload appli_param chall_param counter priv
                             keyhandle_valid 1 s))
         else Some (authenticate_sign P M payload appli_param chall_param counter priv
                      keyhandle_valid 0 s))"

section \<open>main.c\<close>

text \<open>
  The frame header and the endpoints are those of the platform's framing library
  (\<^verbatim>\<open>proto.h\<close>), which is not part of the repository.
\<close>

datatype endpoint = DST_HW_IFPGA | DST_HW_AFPGA | DST_FW | DST_SW

record frame_header =
  hdr_id :: nat
  hdr_endpoint :: endpoint
  hdr_len :: nat

text \<open>Modelled from the spec: the constants of the framing library (spec 3 and 6).\<close>

definition CMDLEN_MAXBYTES :: nat where
  "CMDLEN_MAXBYTES = 128"

definition STATUS_OK :: u8 where
  "STATUS_OK = 0"

definition STATUS_BAD :: u8 where
  "STATUS_BAD = 1"

text \<open>\<^verbatim>\<open>enum appcmd\<close> of \<^verbatim>\<open>app_proto.h\<close>.\<close>

definition APP_CMD_GET_NAMEVERSION :: u8 where
  "APP_CMD_GET_NAMEVERSION = 0x01"

definition APP_RSP_GET_NAMEVERSION :: u8 where
  "APP_RSP_GET_NAMEVERSION = 0x02"

definition APP_CMD_U2F_REGISTER :: u8 where
  "APP_CMD_U2F_REGISTER = 0x03"

definition APP_RSP_U2F_REGISTER :: u8 where
  "APP_RSP_U2F_REGISTER = 0x04"

definition APP_CMD_U2F_CHECKONLY :: u8 where
  "APP_CMD_U2F_CHECKONLY = 0x05"

definition APP_RSP_U2F_CHECKONLY :: u8 where
  "APP_RSP_U2F_CHECKONLY = 0x06"

definition APP_CMD_U2F_AUTHENTICATE_SET :: u8 where
  "APP_CMD_U2F_AUTHENTICATE_SET = 0x07"

definition APP_CMD_U2F_AUTHENTICATE_GO :: u8 where
  "APP_CMD_U2F_AUTHENTICATE_GO = 0x08"

definition APP_RSP_U2F_AUTHENTICATE :: u8 where
  "APP_RSP_U2F_AUTHENTICATE = 0x09"

definition APP_RSP_UNKNOWN_CMD :: u8 where
  "APP_RSP_UNKNOWN_CMD = 0xff"

text \<open>
  Modelled from the spec: \<^verbatim>\<open>appreply\<close> and \<^verbatim>\<open>appreply_nok\<close> are declared in
  \<^verbatim>\<open>app_proto.h\<close>, their code is not among the sources. By spec 6 each call sends one
  response frame, for \<^verbatim>\<open>appreply(hdr, rspcode, buf)\<close> with the opcode \<open>rspcode\<close> and the
  response buffer. A reply is the call with its arguments, the buffer as it is at the call.
\<close>

datatype reply = Appreply_nok frame_header | Appreply frame_header u8 bytes

definition app_name0 :: bytes where
  "app_name0 = [0x74, 0x6b, 0x31, 0x20]"

definition app_name1 :: bytes where
  "app_name1 = [0x66, 0x69, 0x64, 0x6f]"

definition app_version :: u32 where
  "app_version = 0x00000001"

definition APP_LEDVALUE :: "tk1_mem \<Rightarrow> u32" where
  "APP_LEDVALUE M = LED_RED M OR LED_GREEN M"

text \<open>
  The state of \<^verbatim>\<open>main\<close> between two frames: the replies sent so far, the staging
  buffer \<^verbatim>\<open>data\<close> and the device.
\<close>

record app =
  replies :: "reply list"
  data :: bytes
  device :: dev

definition appreply :: "frame_header \<Rightarrow> u8 \<Rightarrow> bytes \<Rightarrow> app \<Rightarrow> app" where
  "appreply hdr rspcode buf a = a\<lparr>replies := replies a @ [Appreply hdr rspcode buf]\<rparr>"

definition appreply_nok :: "frame_header \<Rightarrow> app \<Rightarrow> app" where
  "appreply_nok hdr a = a\<lparr>replies := replies a @ [Appreply_nok hdr]\<rparr>"

text \<open>
  The cases of the switch on \<^verbatim>\<open>cmd[0]\<close>. \<open>rsp\<close> is the response buffer, all zeros when
  a case starts.
\<close>

definition cmd_get_nameversion :: "frame_header \<Rightarrow> bytes \<Rightarrow> app \<Rightarrow> app option" where
  "cmd_get_nameversion hdr rsp a =
     (let rsp = (if hdr_len hdr = 1
                 then memcpy (memcpy (memcpy rsp 0 app_name0 0 4) 4 app_name1 0 4)
                        8 (w32_bytes app_version) 0 4
                 else rsp)
      in Some (appreply hdr APP_RSP_GET_NAMEVERSION rsp a))"

text \<open>
  \<open>output\<close> is the local \<^verbatim>\<open>output[129]\<close> as the stack holds it when the case starts:
  the code does not initialise it.
\<close>

definition cmd_u2f_register ::
  "prims \<Rightarrow> tk1_mem \<Rightarrow> frame_header \<Rightarrow> bytes \<Rightarrow> bytes \<Rightarrow> bytes \<Rightarrow> app \<Rightarrow> app option" where
  "cmd_u2f_register P M hdr cmd rsp output a =
     (if hdr_len hdr \<noteq> 128 then Some (appreply hdr APP_RSP_U2F_REGISTER (rsp[0 := STATUS_BAD]) a)
      else
        (case u2f_register P M output (drop 1 cmd) (device a) of
           None \<Rightarrow> None
         | Some (ret, output, s) \<Rightarrow>
             let a = a\<lparr>device := s\<lparr>led := LED_BLACK\<rparr>\<rparr>
             in if ret \<noteq> 0
                then Some (appreply hdr APP_RSP_U2F_REGISTER
                             (rsp[0 := STATUS_BAD, 1 := word_of_int ret]) a)
                else
                  let rsp = rsp[0 := STATUS_OK];
                      rsp = memcpy rsp 1 output 0 (1 + 64);
                      a = appreply hdr APP_RSP_U2F_REGISTER rsp a;
                      rsp = rsp[0 := STATUS_OK];
                      rsp = memcpy rsp 1 output (1 + 64) 64;
                      a = appreply hdr APP_RSP_U2F_REGISTER rsp a
                  in Some a))"

definition cmd_u2f_checkonly :: "prims \<Rightarrow> frame_header \<Rightarrow> bytes \<Rightarrow> bytes \<Rightarrow> app \<Rightarrow> app option" where
  "cmd_u2f_checkonly P hdr cmd rsp a =
     (if hdr_len hdr \<noteq> 128 then Some (appreply hdr APP_RSP_U2F_CHECKONLY (rsp[0 := STATUS_BAD]) a)
      else
        let (payload, s) = u2f_checkonly P (drop 1 rsp) (drop 1 cmd) (drop (1 + 32) cmd) (device a);
            rsp = take 1 rsp @ payload;
            a = a\<lparr>device := s\<rparr>;
            rsp = rsp[0 := STATUS_OK]
        in Some (appreply hdr APP_RSP_U2F_CHECKONLY rsp a))"

definition cmd_u2f_authenticate_set :: "frame_header \<Rightarrow> bytes \<Rightarrow> bytes \<Rightarrow> app \<Rightarrow> app option" where
  "cmd_u2f_authenticate_set hdr cmd rsp a =
     (if hdr_len hdr \<noteq> 128
      then Some (appreply hdr APP_RSP_U2F_AUTHENTICATE (rsp[0 := STATUS_BAD]) a)
      else
        let a = a\<lparr>data := memcpy (data a) 0 cmd 1 (32 + 32)\<rparr>;
            rsp = rsp[0 := STATUS_OK]
        in Some (appreply hdr APP_RSP_U2F_AUTHENTICATE rsp a))"

definition cmd_u2f_authenticate_go ::
  "prims \<Rightarrow> tk1_mem \<Rightarrow> frame_header \<Rightarrow> bytes \<Rightarrow> bytes \<Rightarrow> app \<Rightarrow> app option" where
  "cmd_u2f_authenticate_go P M hdr cmd rsp a =
     (if hdr_len hdr \<noteq> 128
      then Some (appreply hdr APP_RSP_U2F_AUTHENTICATE (rsp[0 := STATUS_BAD]) a)
      else
        let a = a\<lparr>data := memcpy (data a) (32 + 32) cmd 1 (64 + 1 + 4)\<rparr>
        in case u2f_authenticate P M (drop 1 rsp) (data a) (drop 32 (data a)) (drop 64 (data a))
                  (drop 128 (data a)) (drop 129 (data a)) (device a) of
             None \<Rightarrow> None
           | Some (ret, payload, s) \<Rightarrow>
               let rsp = take 1 rsp @ payload;
                   a = a\<lparr>device := s\<lparr>led := LED_BLACK\<rparr>\<rparr>
               in if ret \<noteq> 0
                  then Some (appreply hdr APP_RSP_U2F_AUTHENTICATE
                               (rsp[0 := STATUS_BAD, 1 := word_of_int ret]) a)
                  else Some (appreply hdr APP_RSP_U2F_AUTHENTICATE (rsp[0 := STATUS_OK]) a))"

text \<open>
  One round of the loop of \<^verbatim>\<open>main\<close>, for a frame whose header \<^verbatim>\<open>parseframe\<close> accepted:
  \<open>body\<close> is what \<^verbatim>\<open>read(cmd, hdr.len)\<close> reads from the link, \<open>hdr_len hdr\<close> bytes.
  \<open>None\<close>: the round never ends.
\<close>

definition main_frame ::
  "prims \<Rightarrow> tk1_mem \<Rightarrow> frame_header \<Rightarrow> bytes \<Rightarrow> bytes \<Rightarrow> app \<Rightarrow> app option" where
  "main_frame P M hdr body output a =
     (let a = a\<lparr>device := (device a)\<lparr>led := APP_LEDVALUE M\<rparr>\<rparr>;
          cmd = memcpy (replicate CMDLEN_MAXBYTES 0) 0 body 0 (hdr_len hdr)
      in if hdr_endpoint hdr = DST_FW then Some (appreply_nok hdr a)
         else if hdr_endpoint hdr \<noteq> DST_SW then Some a
         else
           let rsp = replicate CMDLEN_MAXBYTES 0
           in if cmd ! 0 = APP_CMD_GET_NAMEVERSION then cmd_get_nameversion hdr rsp a
              else if cmd ! 0 = APP_CMD_U2F_REGISTER then cmd_u2f_register P M hdr cmd rsp output a
              else if cmd ! 0 = APP_CMD_U2F_CHECKONLY then cmd_u2f_checkonly P hdr cmd rsp a
              else if cmd ! 0 = APP_CMD_U2F_AUTHENTICATE_SET
              then cmd_u2f_authenticate_set hdr cmd rsp a
              else if cmd ! 0 = APP_CMD_U2F_AUTHENTICATE_GO
              then cmd_u2f_authenticate_go P M hdr cmd rsp a
              else Some (appreply hdr APP_RSP_UNKNOWN_CMD rsp a))"

section \<open>The specification's words\<close>

text \<open>
  \<open>MAC_S(part1 \<parallel> part2)\<close> of the specification: Blake2s keyed with the 32 bytes of the
  device secret, with a 32-byte output, over the 64 bytes \<open>part1 \<parallel> part2\<close>.
\<close>

definition MAC :: "prims \<Rightarrow> u32 list \<Rightarrow> bytes \<Rightarrow> bytes \<Rightarrow> bytes" where
  "MAC P S part1 part2 = blake2s P 32 (take 32 (words_bytes S)) (take 32 part1 @ take 32 part2)"

text \<open>
  The acceptance condition of a key handle (spec 3): the MAC recomputed from \<open>app_param\<close>
  and the private key derived from the handle's first half equals the handle's second half.
\<close>

definition handle_valid :: "prims \<Rightarrow> u32 list \<Rightarrow> bytes \<Rightarrow> bytes \<Rightarrow> bool" where
  "handle_valid P S app_param KH \<longleftrightarrow>
     take 32 (drop 32 KH) = MAC P S app_param (MAC P S app_param KH)"

text \<open>
  The DRBG block step as the specification words it (4.1), on the counter, the sixteen
  state words and the TRNG: the digest of the state, the sixteen bytes emitted, and the
  state advanced.
\<close>

definition spec_digest :: "prims \<Rightarrow> u32 list \<Rightarrow> u32 list" where
  "spec_digest P st = bytes_words (blake2s P 32 [] (words_bytes st))"

definition big_endian :: "u32 \<Rightarrow> bytes" where
  "big_endian w = [ucast (drop_bit 24 w), ucast (drop_bit 16 w), ucast (drop_bit 8 w), ucast w]"

definition spec_emit :: "prims \<Rightarrow> u32 list \<Rightarrow> bytes" where
  "spec_emit P st = concat (map big_endian (take 4 (spec_digest P st)))"

fun trng_words :: "nat \<Rightarrow> (u32 \<times> u32) list \<Rightarrow> (u32 list \<times> (u32 \<times> u32) list) option" where
  "trng_words 0 ps = Some ([], ps)"
| "trng_words (Suc n) ps =
     (case trng_wait ps of
        None \<Rightarrow> None
      | Some (w, ps) \<Rightarrow>
          (case trng_words n ps of
             None \<Rightarrow> None
           | Some (ws, ps) \<Rightarrow> Some (w # ws, ps)))"

definition spec_advance ::
  "prims \<Rightarrow> u32 \<times> u32 list \<times> (u32 \<times> u32) list \<Rightarrow> (u32 \<times> u32 list \<times> (u32 \<times> u32) list) option" where
  "spec_advance P x =
     (let (c, st, trng) = x;
          st = take 8 (spec_digest P st) @ drop 8 st;
          c = c + 1;
          st = st[15 := st ! 15 + c]
      in if c = 1000 then
           (case trng_words 8 trng of
              None \<Rightarrow> None
            | Some (ws, trng) \<Rightarrow> Some (0, take 8 st @ ws, trng))
         else Some (c, st, trng))"

fun spec_blocks ::
  "prims \<Rightarrow> nat \<Rightarrow> u32 \<times> u32 list \<times> (u32 \<times> u32) list
     \<Rightarrow> (bytes \<times> u32 \<times> u32 list \<times> (u32 \<times> u32) list) option" where
  "spec_blocks P 0 x = Some ([], x)"
| "spec_blocks P (Suc k) x =
     (case spec_advance P x of
        None \<Rightarrow> None
      | Some y \<Rightarrow>
          (case spec_blocks P k y of
             None \<Rightarrow> None
           | Some (out, z) \<Rightarrow> Some (spec_emit P (fst (snd x)) @ out, z)))"

text \<open>The response opcode of each U2F command opcode (spec 6).\<close>

definition response_opcode :: "u8 \<Rightarrow> u8" where
  "response_opcode c =
     (if c = APP_CMD_U2F_REGISTER then APP_RSP_U2F_REGISTER
      else if c = APP_CMD_U2F_CHECKONLY then APP_RSP_U2F_CHECKONLY
      else APP_RSP_U2F_AUTHENTICATE)"

text \<open>The timer has not expired at a poll: its status shows the running bit (spec 4.2).\<close>

definition timer_running :: "tk1_mem \<Rightarrow> poll \<Rightarrow> bool" where
  "timer_running M p \<longleftrightarrow>
     timer_status p AND push_bit (TK1_MMIO_TIMER_STATUS_RUNNING_BIT M) 1 \<noteq> 0"

text \<open>The number of entropy words the TRNG still delivers.\<close>

definition trng_ready :: "(u32 \<times> u32) list \<Rightarrow> nat" where
  "trng_ready ps = length (filter (\<lambda>p. fst p \<noteq> 0) ps)"

section \<open>Concrete inputs\<close>

text \<open>
  Stand-ins for the primitives, to run the model: the MAC repeats the first byte of its
  input, key derivation rejects a key that starts with a zero byte, the hash repeats the
  first byte of the counter, and signing rejects a hash that starts with a zero byte.
\<close>

definition stub_prims :: prims where
  "stub_prims = \<lparr>
     blake2s = (\<lambda>n key inp. replicate n (inp ! 0)),
     p256_keypair_from_bytes = (\<lambda>priv. (if priv ! 0 = 0 then - 1 else 0, replicate 64 (priv ! 0 + 1))),
     p256_ecdsa_sign = (\<lambda>priv h n. (if h ! 0 = 0 then - 1 else 0, replicate 64 (priv ! 0 + h ! 0))),
     calc_sha_256 = (\<lambda>m n. replicate 32 (m ! 33))\<rparr>"

definition tk1 :: tk1_mem where
  "tk1 = \<lparr>
     TK1_MMIO_TK1_LED_R_BIT = 2,
     TK1_MMIO_TK1_LED_G_BIT = 1,
     TK1_MMIO_TK1_LED_B_BIT = 0,
     TK1_MMIO_TIMER_CTRL_START_BIT = 0,
     TK1_MMIO_TIMER_CTRL_STOP_BIT = 1,
     TK1_MMIO_TIMER_STATUS_RUNNING_BIT = 0,
     TK1_MMIO_TOUCH_STATUS_EVENT_BIT = 0\<rparr>"

text \<open>A device after start-up, with the polls of its environment.\<close>

definition dev0 :: "poll list \<Rightarrow> (u32 \<times> u32) list \<Rightarrow> dev" where
  "dev0 tps rps = \<lparr>
     secret = replicate 8 5,
     ctr = 0,
     state = replicate 16 7,
     led = 0,
     touch = 0,
     timer_ctrl = 0,
     timer_prescaler = 0,
     timer = 0,
     touch_polls = tps,
     trng_polls = rps,
     calls = []\<rparr>"

text \<open>A device one block before a refresh is due, with eight words ready in the TRNG.\<close>

definition dev_reseed :: dev where
  "dev_reseed = (dev0 [] (replicate 8 (1, 9)))\<lparr>ctr := 999\<rparr>"

definition touch_now :: poll where
  "touch_now = \<lparr>timer_status = 1, touch_event = True\<rparr>"

definition idle_now :: poll where
  "idle_now = \<lparr>timer_status = 1, touch_event = False\<rparr>"

definition timeout_now :: poll where
  "timeout_now = \<lparr>timer_status = 0, touch_event = False\<rparr>"

definition app0 :: "bytes \<Rightarrow> dev \<Rightarrow> app" where
  "app0 d s = \<lparr>replies = [], data = d, device = s\<rparr>"

text \<open>
  Command buffers: a Register for an application parameter of bytes \<open>x\<close>, and an
  Authenticate-GO with a key handle that the stand-in MAC accepts for an application
  parameter that starts with \<open>x\<close>, the \<open>check_user\<close> flag \<open>cu\<close> and a counter that
  starts with \<open>c\<close>. \<open>staged\<close> is the staging buffer after an Authenticate-SET for an
  application parameter of bytes 3.
\<close>

definition reg_cmd :: "u8 \<Rightarrow> bytes" where
  "reg_cmd x = [APP_CMD_U2F_REGISTER] @ replicate 32 x @ replicate 95 0"

definition go_cmd :: "u8 \<Rightarrow> u8 \<Rightarrow> u8 \<Rightarrow> bytes" where
  "go_cmd x cu c =
     [APP_CMD_U2F_AUTHENTICATE_GO] @ replicate 32 7 @ replicate 32 x @ [cu] @ [c, 0, 0, 1] @
     replicate 58 0"

definition staged :: bytes where
  "staged = replicate 32 3 @ replicate 32 4 @ replicate 69 0"

definition hdr0 :: "nat \<Rightarrow> frame_header" where
  "hdr0 n = \<lparr>hdr_id = 0, hdr_endpoint = DST_SW, hdr_len = n\<rparr>"

section \<open>The DRBG\<close>

lemma ucast_mask_u8: "(ucast (w AND 0xff :: u32) :: u8) = ucast w"
proof -
  have "(0xff :: u32) = mask 8" by (simp add: mask_eq_exp_minus_1)
  show ?thesis
    unfolding \<open>(0xff :: u32) = mask 8\<close>
    by (rule bit_word_eqI) (auto simp: bit_simps)
qed

lemma length_big_endian: "length (big_endian w) = 4"
  by (simp add: big_endian_def)

lemma output_w32_eq:
  assumes "off + 4 \<le> length out"
  shows "output_w32 out off w = take off out @ big_endian w @ drop (off + 4) out"
proof -
  define xs where "xs = take off out"
  define rest where "rest = drop off out"
  have out: "out = xs @ rest" and len: "length xs = off"
    using assms by (simp_all add: xs_def rest_def)
  have "4 \<le> length rest"
    using assms by (simp add: rest_def)
  then obtain a b c d ys where rest: "rest = a # b # c # d # ys"
    by (auto simp: numeral_eq_Suc Suc_le_length_iff)
  show ?thesis
    unfolding out rest output_w32_def Let_def big_endian_def
    using len by (simp add: list_update_append ucast_mask_u8 nth_append)
qed

lemma fold_output_w32:
  assumes "off + 16 \<le> length out" "4 \<le> length d"
  shows "fold (\<lambda>i output. output_w32 output (off + i * 4) (d ! i)) [0..<4] out =
         take off out @ concat (map big_endian (take 4 d)) @ drop (off + 16) out"
proof -
  have u: "[0..<4] = [0, 1, 2, 3]"
    by (simp add: upt_rec)
  obtain a b c e ys where d: "d = a # b # c # e # ys"
    using assms(2) by (auto simp: numeral_eq_Suc Suc_le_length_iff)
  show ?thesis
    unfolding u using assms(1)
    by (simp add: output_w32_eq length_big_endian d add.commute)
qed

lemma fold_state_copy:
  "n \<le> length d \<Longrightarrow> n \<le> length (state s) \<Longrightarrow>
   fold (\<lambda>i s. s\<lparr>state := (state s)[i := d ! i]\<rparr>) [0..<n] s = s\<lparr>state := take n d @ drop n (state s)\<rparr>"
proof (induction n)
  case 0
  then show ?case by simp
next
  case (Suc n)
  then show ?case
    by (simp add: take_Suc_conv_app_nth list_update_append upd_conv_take_nth_drop Cons_nth_drop_Suc)
qed

lemma reseed_loop:
  "m + 8 + n \<le> length (state s) \<Longrightarrow>
   for_loop (\<lambda>i s. case get_w32_entropy s of None \<Rightarrow> None
                    | Some (w, s) \<Rightarrow> Some (s\<lparr>state := (state s)[i + 8 := w]\<rparr>)) [m..<m + n] s =
   (case trng_words n (trng_polls s) of
      None \<Rightarrow> None
    | Some (ws, ps) \<Rightarrow>
        Some (s\<lparr>state := take (m + 8) (state s) @ ws @ drop (m + 8 + n) (state s), trng_polls := ps\<rparr>))"
  (is "_ \<Longrightarrow> for_loop ?body _ _ = _")
proof (induction n arbitrary: m s)
  case 0
  then show ?case by simp
next
  case (Suc n)
  have upt: "[m..<m + Suc n] = m # [Suc m..<Suc m + n]"
    by (simp add: upt_conv_Cons)
  have step: "for_loop ?body [m..<m + Suc n] s =
      (case ?body m s of None \<Rightarrow> None | Some s' \<Rightarrow> for_loop ?body [Suc m..<Suc m + n] s')"
    by (simp only: upt for_loop.simps)
  show ?case
  proof (cases "trng_wait (trng_polls s)")
    case None
    then show ?thesis
      unfolding step by (simp add: get_w32_entropy_def)
  next
    case (Some a)
    obtain w ps where a: "a = (w, ps)" by (cases a)
    let ?s = "s\<lparr>trng_polls := ps, state := (state s)[m + 8 := w]\<rparr>"
    have len: "Suc m + 8 + n \<le> length (state ?s)"
      using Suc.prems by simp
    have b: "?body m s = Some ?s"
      by (simp add: get_w32_entropy_def Some a)
    show ?thesis
      unfolding step b option.case Suc.IH [OF len]
      using Suc.prems
      by (simp add: Some a take_Suc_conv_app_nth upd_conv_take_nth_drop add_ac split: option.splits)
  qed
qed

lemma length_bytes_words: "length (bytes_words bs) = length bs div 4"
  by (simp add: bytes_words_def)

lemma update_rng_state_eq:
  assumes "8 \<le> length digest" "length (state s) = 16"
  shows "update_rng_state digest s =
    (let st = take 8 digest @ drop 8 (state s);
         c = ctr s + 1;
         st = st[15 := st ! 15 + c]
     in if c = 1000 then
          (case trng_words 8 (trng_polls s) of
             None \<Rightarrow> None
           | Some (ws, ps) \<Rightarrow> Some (s\<lparr>ctr := 0, state := take 8 st @ ws, trng_polls := ps\<rparr>))
        else Some (s\<lparr>ctr := c, state := st\<rparr>))"
proof -
  let ?s = "s\<lparr>state := (take 8 digest @ drop 8 (state s))
              [15 := (take 8 digest @ drop 8 (state s)) ! 15 + (ctr s + 1)], ctr := ctr s + 1\<rparr>"
  have len: "0 + 8 + 8 \<le> length (state ?s)"
    using assms by simp
  have z: "[0..<8] = [0..<0 + 8]" by simp
  show ?thesis
    unfolding update_rng_state_def fold_state_copy [OF assms(1), of s, unfolded assms(2), simplified]
    using assms
    apply (simp add: Let_def RESEED_TIME_def del: upt_Suc)
    apply (subst z)
    apply (subst reseed_loop)
    apply (simp_all split: option.splits)
    done
qed

lemma trng_words_length: "trng_words n ps = Some (ws, ps') \<Longrightarrow> length ws = n"
  by (induction n arbitrary: ps ws) (auto split: option.splits)

lemma length_spec_digest: "prims_ok P \<Longrightarrow> length (spec_digest P st) = 8"
  by (simp add: spec_digest_def length_bytes_words prims_ok_def)

lemma spec_advance_length:
  assumes "prims_ok P" "length st = 16" "spec_advance P (c, st, tr) = Some (c', st', tr')"
  shows "length st' = 16"
  using assms(2,3) length_spec_digest [OF assms(1), of st]
  by (auto simp: spec_advance_def Let_def split: if_splits option.splits dest: trng_words_length)

lemma rng_block_eq:
  assumes "prims_ok P" "length (state s) = 16" "16 * b + 16 \<le> length out"
  shows "rng_block P b (out, s) =
    (case spec_advance P (ctr s, state s, trng_polls s) of
       None \<Rightarrow> None
     | Some (c, st, tr) \<Rightarrow>
         Some (take (16 * b) out @ spec_emit P (state s) @ drop (16 * b + 16) out,
               s\<lparr>ctr := c, state := st, trng_polls := tr,
                  calls := calls s @ [Call_blake2s 32 [] (words_bytes (state s))]\<rparr>))"
proof -
  have d: "length (spec_digest P (state s)) = 8"
    by (rule length_spec_digest [OF assms(1)])
  have f: "fold (\<lambda>i output. output_w32 output (b * 16 + i * 4) (spec_digest P (state s) ! i)) [0..<4] out =
      take (16 * b) out @ spec_emit P (state s) @ drop (16 * b + 16) out"
    using fold_output_w32 [of "b * 16" out "spec_digest P (state s)"] assms(3) d
    by (simp add: spec_emit_def mult.commute)
  have u: "update_rng_state (spec_digest P (state s)) (log_call c s) =
      (case spec_advance P (ctr s, state s, trng_polls s) of
         None \<Rightarrow> None
       | Some (c', st, tr) \<Rightarrow> Some (s\<lparr>ctr := c', state := st, trng_polls := tr, calls := calls s @ [c]\<rparr>))" for c
    using d assms(2)
    by (subst update_rng_state_eq)
       (auto simp: log_call_def spec_advance_def Let_def split: option.splits)
  show ?thesis
    unfolding rng_block_def Let_def prod.case spec_digest_def [symmetric] f u
    by (simp split: option.splits)
qed

lemma length_spec_emit: "prims_ok P \<Longrightarrow> length (spec_emit P st) = 16"
  using length_spec_digest [of P st]
  by (auto simp: spec_emit_def length_concat comp_def length_big_endian sum_list_triv)

lemma rng_loop:
  assumes P: "prims_ok P"
  shows "length (state s) = 16 \<Longrightarrow> 16 * (b + k) \<le> length out \<Longrightarrow>
   (case spec_blocks P k (ctr s, state s, trng_polls s) of
      None \<Rightarrow> for_loop (rng_block P) [b..<b + k] (out, s) = None
    | Some (bs, c, st, tr) \<Rightarrow>
        length bs = 16 * k \<and> length st = 16 \<and>
        (\<exists>cs. for_loop (rng_block P) [b..<b + k] (out, s) =
           Some (take (16 * b) out @ bs @ drop (16 * (b + k)) out,
                 s\<lparr>ctr := c, state := st, trng_polls := tr, calls := calls s @ cs\<rparr>)))"
proof (induction k arbitrary: b out s)
  case 0
  have "s = s\<lparr>calls := calls s @ []\<rparr>" by simp
  then have "\<exists>cs. s = s\<lparr>calls := calls s @ cs\<rparr>" by (rule exI)
  then show ?case using 0 by simp
next
  case (Suc k)
  have upt: "[b..<b + Suc k] = b # [Suc b..<Suc b + k]"
    by (simp add: upt_conv_Cons)
  have step: "for_loop (rng_block P) [b..<b + Suc k] (out, s) =
      (case rng_block P b (out, s) of None \<Rightarrow> None
       | Some a \<Rightarrow> for_loop (rng_block P) [Suc b..<Suc b + k] a)"
    by (simp only: upt for_loop.simps)
  have blk: "16 * b + 16 \<le> length out"
    using Suc.prems(2) by simp
  note rb = rng_block_eq [OF P Suc.prems(1) blk]
  show ?case
  proof (cases "spec_advance P (ctr s, state s, trng_polls s)")
    case None
    then show ?thesis
      unfolding step rb by simp
  next
    case (Some y)
    obtain c1 st1 tr1 where y: "y = (c1, st1, tr1)" by (cases y)
    let ?out1 = "take (16 * b) out @ spec_emit P (state s) @ drop (16 * b + 16) out"
    let ?s1 = "s\<lparr>ctr := c1, state := st1, trng_polls := tr1,
                  calls := calls s @ [Call_blake2s 32 [] (words_bytes (state s))]\<rparr>"
    have l1: "length (state ?s1) = 16"
      using spec_advance_length [OF P Suc.prems(1) Some [unfolded y]] by simp
    have lo: "length ?out1 = length out"
      using blk by (simp add: length_spec_emit [OF P])
    have l2: "16 * (Suc b + k) \<le> length ?out1"
      unfolding lo using Suc.prems(2) by simp
    have st: "for_loop (rng_block P) [b..<b + Suc k] (out, s) =
        for_loop (rng_block P) [Suc b..<Suc b + k] (?out1, ?s1)"
      unfolding step rb Some y by simp
    have t: "take (16 * Suc b) ?out1 = take (16 * b) out @ spec_emit P (state s)"
      using blk by (simp add: length_spec_emit [OF P])
    have d: "drop (16 * (Suc b + k)) ?out1 = drop (16 * (b + Suc k)) out"
      using blk by (simp add: length_spec_emit [OF P] add_ac)
    show ?thesis
      using Suc.IH [OF l1 l2]
      unfolding st t d
      by (auto simp: Some y length_spec_emit [OF P] simp del: upt_Suc split: option.splits)
  qed
qed

lemma trng_wait_ready:
  "0 < trng_ready ps \<Longrightarrow> \<exists>w ps'. trng_wait ps = Some (w, ps') \<and> trng_ready ps' = trng_ready ps - 1"
  by (induction ps rule: trng_wait.induct) (auto simp: trng_ready_def)

lemma for_loop_total:
  assumes "\<And>i a n. Q (Suc n) a \<Longrightarrow> \<exists>a'. body i a = Some a' \<and> Q n a'"
  shows "Q (length is) a \<Longrightarrow> \<exists>a'. for_loop body is a = Some a' \<and> Q 0 a'"
proof (induction "is" arbitrary: a)
  case Nil
  then show ?case by simp
next
  case (Cons i "is")
  from assms [of "length is" a i] Cons.prems
  obtain a' where "body i a = Some a'" "Q (length is) a'" by auto
  with Cons.IH [of a'] show ?case by simp
qed

lemma fold_state_frame:
  "trng_polls (fold (\<lambda>i s. s\<lparr>state := f i s\<rparr>) is s) = trng_polls s \<and>
   ctr (fold (\<lambda>i s. s\<lparr>state := f i s\<rparr>) is s) = ctr s"
  by (induction "is" arbitrary: s) auto

lemma reseed_total:
  assumes "8 + r \<le> trng_ready (trng_polls s)"
  shows "\<exists>s'. for_loop (\<lambda>i s. case get_w32_entropy s of None \<Rightarrow> None
                    | Some (w, s) \<Rightarrow> Some (s\<lparr>state := (state s)[i + 8 := w]\<rparr>)) [0..<8] s = Some s' \<and>
           r \<le> trng_ready (trng_polls s') \<and> ctr s' = ctr s"
proof -
  let ?Q = "\<lambda>n (s' :: dev). n + r \<le> trng_ready (trng_polls s') \<and> ctr s' = ctr s"
  have "\<exists>s'. for_loop (\<lambda>i s. case get_w32_entropy s of None \<Rightarrow> None
                    | Some (w, s) \<Rightarrow> Some (s\<lparr>state := (state s)[i + 8 := w]\<rparr>)) [0..<8] s = Some s' \<and> ?Q 0 s'"
  proof (rule for_loop_total [where Q = ?Q])
    fix i a n
    assume q: "?Q (Suc n) a"
    then have "0 < trng_ready (trng_polls a)" by simp
    from trng_wait_ready [OF this] q
    show "\<exists>a'. (case get_w32_entropy a of None \<Rightarrow> None
              | Some (w, s) \<Rightarrow> Some (s\<lparr>state := (state s)[i + 8 := w]\<rparr>)) = Some a' \<and> ?Q n a'"
      by (auto simp: get_w32_entropy_def)
  next
    show "?Q (length [0..<8]) s" using assms by simp
  qed
  then show ?thesis by simp
qed

lemma update_rng_state_total:
  assumes "unat (ctr s) < 1000"
    and "8 * ((unat (ctr s) + Suc n) div 1000) \<le> trng_ready (trng_polls s)"
  shows "\<exists>s'. update_rng_state d s = Some s' \<and> unat (ctr s') < 1000 \<and>
           8 * ((unat (ctr s') + n) div 1000) \<le> trng_ready (trng_polls s')"
proof -
  let ?f = "fold (\<lambda>i s. s\<lparr>state := (state s)[i := d ! i]\<rparr>) [0..<8] s"
  let ?s1 = "?f\<lparr>ctr := ctr ?f + 1\<rparr>"
  let ?s2 = "?s1\<lparr>state := (state ?s1)[15 := state ?s1 ! 15 + ctr ?s1]\<rparr>"
  note ff = fold_state_frame [of "\<lambda>i s. (state s)[i := d ! i]" "[0..<8]" s]
  have fr: "trng_polls ?s2 = trng_polls s" "ctr ?s2 = ctr s + 1"
    using ff by simp_all
  have u: "unat (ctr s + 1) = unat (ctr s) + 1"
    using assms(1) by (simp add: unat_word_ariths)
  have e: "ctr s + 1 = 1000 \<longleftrightarrow> unat (ctr s) = 999"
    unfolding word_unat_eq_iff [of "ctr s + 1"] u by simp
  have def: "update_rng_state d s =
      (if ctr ?s2 = RESEED_TIME then
         (case for_loop (\<lambda>i s. case get_w32_entropy s of None \<Rightarrow> None
                    | Some (w, s) \<Rightarrow> Some (s\<lparr>state := (state s)[i + 8 := w]\<rparr>)) [0..<8] ?s2 of
            None \<Rightarrow> None | Some s \<Rightarrow> Some (s\<lparr>ctr := 0\<rparr>))
       else Some ?s2)"
    unfolding update_rng_state_def Let_def ..
  show ?thesis
  proof (cases "unat (ctr s) = 999")
    case True
    have "(1000 + n) div 1000 = 1 + n div 1000"
      by simp
    with True have "8 + 8 * (n div 1000) \<le> trng_ready (trng_polls ?s2)"
      using assms(2) unfolding fr by simp
    from reseed_total [OF this]
    show ?thesis
      unfolding def fr e RESEED_TIME_def using True by auto
  next
    case False
    then show ?thesis
      unfolding def fr e RESEED_TIME_def using assms u by (auto simp: ff)
  qed
qed

lemma rng_block_total:
  assumes "unat (ctr s) < 1000"
    and "8 * ((unat (ctr s) + Suc n) div 1000) \<le> trng_ready (trng_polls s)"
  shows "\<exists>out' s'. rng_block P b (out, s) = Some (out', s') \<and> unat (ctr s') < 1000 \<and>
           8 * ((unat (ctr s') + n) div 1000) \<le> trng_ready (trng_polls s')"
proof -
  let ?c = "Call_blake2s 32 [] (words_bytes (state s))"
  have "unat (ctr (log_call ?c s)) < 1000"
    and "8 * ((unat (ctr (log_call ?c s)) + Suc n) div 1000) \<le> trng_ready (trng_polls (log_call ?c s))"
    using assms by (simp_all add: log_call_def)
  from update_rng_state_total [OF this, of "bytes_words (blake2s P 32 [] (words_bytes (state s)))"]
  show ?thesis
    unfolding rng_block_def Let_def prod.case by auto
qed

lemma rng_generate_total:
  assumes "unat (ctr s) < 1000"
    and "8 * ((unat (ctr s) + unat n div 16) div 1000) \<le> trng_ready (trng_polls s)"
    and "unat n mod 16 = 0"
  shows "\<exists>out' s'. rng_generate P out n s = Some (0, out', s')"
proof -
  let ?Q = "\<lambda>n (a :: bytes \<times> dev). unat (ctr (snd a)) < 1000 \<and>
              8 * ((unat (ctr (snd a)) + n) div 1000) \<le> trng_ready (trng_polls (snd a))"
  have "\<exists>a'. for_loop (rng_block P) [0..<unat n div 16] (out, s) = Some a' \<and> ?Q 0 a'"
  proof (rule for_loop_total [where Q = ?Q])
    fix i a m
    assume "?Q (Suc m) a"
    with rng_block_total [of "snd a" m P i "fst a"]
    show "\<exists>a'. rng_block P i a = Some a' \<and> ?Q m a'"
      by auto
  next
    show "?Q (length [0..<unat n div 16]) (out, s)"
      using assms by simp
  qed
  then show ?thesis
    using assms(3) by (auto simp: rng_generate_def)
qed

lemma rng_init_state_ctr: "rng_init_state cdi s = Some s' \<Longrightarrow> unat (ctr s') < 1000"
  by (auto simp: rng_init_state_def split: option.splits)

lemma prims_ok_stub: "prims_ok stub_prims"
  by (simp add: prims_ok_def stub_prims_def)

lemma rng_generate_codes:
  "rng_generate P out n s = Some (ret, out', s') \<Longrightarrow> ret = 0 \<longleftrightarrow> unat n mod 16 = 0"
  by (auto simp: rng_generate_def unat_eq_0 [symmetric] simp del: unat_eq_0 split: if_splits option.splits)

text \<open>
  C7. For a call of \<open>rng_generate\<close> with \<open>n = 16 * k\<close>, \<open>k\<close> positive, the code computes
  what the specification's block step computes, iterated \<open>k\<close> times: the output is the
  blocks emitted in order, each the first four words of the Blake2s digest of the state in
  big-endian order, and the counter, the state words and the TRNG end as the \<open>k\<close> advances
  leave them (digest words 0..7 copied in, counter incremented and added into word 15,
  words 8..15 refreshed and the counter reset exactly when it reaches 1000). The call
  blocks exactly when a refresh finds the TRNG silent.
\<close>

theorem rng_generate_block_step:
  assumes "prims_ok P" "length (state s) = 16" "0 < k" "unat n = 16 * k" "16 * k \<le> length out"
  shows "map_option (\<lambda>(ret, out', s'). (ret, out', ctr s', state s', trng_polls s'))
           (rng_generate P out n s) =
         map_option (\<lambda>(bs, c, st, tr). (0, bs @ drop (16 * k) out, c, st, tr))
           (spec_blocks P k (ctr s, state s, trng_polls s))"
proof -
  have n: "n \<noteq> 0" "unat n mod 16 = 0" "unat n div 16 = k"
    using assms(3,4) by (auto simp: unat_eq_0 [symmetric] simp del: unat_eq_0)
  have g: "rng_generate P out n s =
      (case for_loop (rng_block P) [0..<0 + k] (out, s) of
         None \<Rightarrow> None | Some (out, s') \<Rightarrow> Some (0, out, s'))"
    by (simp add: rng_generate_def n)
  show ?thesis
    using rng_loop [OF assms(1,2), of 0 k out] assms(5)
    unfolding g
    by (auto split: option.splits)
qed

theorem rng_generate_block_step_witness:
  "prims_ok stub_prims \<and> length (state (dev0 [] [])) = 16 \<and> (0 :: nat) < 2 \<and>
   unat (32 :: u32) = 16 * 2 \<and> 16 * 2 \<le> length (replicate 32 (0 :: u8)) \<and>
   map_option (\<lambda>(ret, out', s'). (ret, out', ctr s', state s', trng_polls s'))
     (rng_generate stub_prims (replicate 32 0) 32 (dev0 [] [])) =
   map_option (\<lambda>(bs, c, st, tr). (0, bs @ drop (16 * 2) (replicate 32 0), c, st, tr))
     (spec_blocks stub_prims 2 (ctr (dev0 [] []), state (dev0 [] []), trng_polls (dev0 [] []))) \<and>
   (\<exists>out' s'. rng_generate stub_prims (replicate 32 0) 32 (dev0 [] []) = Some (0, out', s'))"
proof -
  have h: "prims_ok stub_prims" "length (state (dev0 [] [])) = 16" "(0 :: nat) < 2"
    "unat (32 :: u32) = 16 * 2" "16 * 2 \<le> length (replicate 32 (0 :: u8))"
    by (simp_all add: prims_ok_stub dev0_def)
  have t: "\<exists>out' s'. rng_generate stub_prims (replicate 32 0) 32 (dev0 [] []) = Some (0, out', s')"
    by (rule rng_generate_total) (simp_all add: dev0_def)
  show ?thesis
    using h t rng_generate_block_step [OF h] by simp
qed

text \<open>
  C8. \<open>rng_generate\<close> with \<open>output_size = 0\<close> returns 0 with the buffer and the state as
  they were; with \<open>output_size\<close> not a multiple of 16 it returns a non-zero code with the
  buffer and the state as they were; whenever it returns, the code is 0 exactly when
  \<open>output_size\<close> is a multiple of 16; and for a multiple of 16 it does return (with 0)
  when the TRNG delivers the eight words of each refresh that falls due.
\<close>

theorem rng_generate_contract:
  "(output_size = 0 \<longrightarrow> rng_generate P out output_size s = Some (0, out, s)) \<and>
   (unat output_size mod 16 \<noteq> 0 \<longrightarrow>
      (\<exists>ret. ret \<noteq> 0 \<and> rng_generate P out output_size s = Some (ret, out, s))) \<and>
   (\<forall>ret out' s'. rng_generate P out output_size s = Some (ret, out', s') \<longrightarrow>
      (ret = 0 \<longleftrightarrow> unat output_size mod 16 = 0)) \<and>
   (unat output_size mod 16 = 0 \<and> unat (ctr s) < 1000 \<and>
    8 * ((unat (ctr s) + unat output_size div 16) div 1000) \<le> trng_ready (trng_polls s) \<longrightarrow>
      (\<exists>out' s'. rng_generate P out output_size s = Some (0, out', s')))"
proof (intro conjI impI allI)
  assume "output_size = 0"
  then show "rng_generate P out output_size s = Some (0, out, s)"
    by (simp add: rng_generate_def)
next
  assume "unat output_size mod 16 \<noteq> 0"
  then have "rng_generate P out output_size s = Some (- 1, out, s)"
    by (auto simp: rng_generate_def)
  then show "\<exists>ret. ret \<noteq> 0 \<and> rng_generate P out output_size s = Some (ret, out, s)"
    by simp
next
  fix ret out' s'
  assume "rng_generate P out output_size s = Some (ret, out', s')"
  then show "ret = 0 \<longleftrightarrow> unat output_size mod 16 = 0"
    by (rule rng_generate_codes)
next
  assume "unat output_size mod 16 = 0 \<and> unat (ctr s) < 1000 \<and>
    8 * ((unat (ctr s) + unat output_size div 16) div 1000) \<le> trng_ready (trng_polls s)"
  then show "\<exists>out' s'. rng_generate P out output_size s = Some (0, out', s')"
    by (intro rng_generate_total) simp_all
qed

theorem rng_generate_contract_witness:
  "rng_generate stub_prims [1, 2] 0 dev_reseed = Some (0, [1, 2], dev_reseed) \<and>
   unat (24 :: u32) mod 16 \<noteq> 0 \<and>
   (\<exists>ret. ret \<noteq> 0 \<and> rng_generate stub_prims [1, 2] 24 dev_reseed = Some (ret, [1, 2], dev_reseed)) \<and>
   unat (32 :: u32) mod 16 = 0 \<and> unat (ctr dev_reseed) < 1000 \<and>
   8 * ((unat (ctr dev_reseed) + unat (32 :: u32) div 16) div 1000) \<le> trng_ready (trng_polls dev_reseed) \<and>
   (\<exists>out' s'. rng_generate stub_prims (replicate 32 0) 32 dev_reseed = Some (0, out', s'))"
proof -
  have a: "rng_generate stub_prims [1, 2] 0 dev_reseed = Some (0, [1, 2], dev_reseed)"
    using rng_generate_contract [of 0 stub_prims "[1, 2]" dev_reseed] by simp
  have b: "unat (24 :: u32) mod 16 \<noteq> 0" by simp
  have c: "\<exists>ret. ret \<noteq> 0 \<and> rng_generate stub_prims [1, 2] 24 dev_reseed = Some (ret, [1, 2], dev_reseed)"
    using rng_generate_contract [of 24 stub_prims "[1, 2]" dev_reseed] b by blast
  have d: "unat (32 :: u32) mod 16 = 0" "unat (ctr dev_reseed) < 1000"
    "8 * ((unat (ctr dev_reseed) + unat (32 :: u32) div 16) div 1000) \<le> trng_ready (trng_polls dev_reseed)"
    by (simp_all add: dev_reseed_def dev0_def trng_ready_def)
  have e: "\<exists>out' s'. rng_generate stub_prims (replicate 32 0) 32 dev_reseed = Some (0, out', s')"
    using rng_generate_contract [of 32 stub_prims "replicate 32 0" dev_reseed] d by blast
  show ?thesis
    using a b c d e by blast
qed

section \<open>The touch gate and the U2F core\<close>

lemma fold_check:
  "fold (\<lambda>i v. if a ! i \<noteq> b ! i then 0 else v) [0..<n] (v::int) =
     (if \<forall>i<n. a ! i = b ! i then v else 0)"
proof (induction n)
  case 0
  then show ?case by simp
next
  case (Suc n)
  then show ?case by (auto simp: less_Suc_eq)
qed

lemma keyhandle_check_eq:
  assumes "32 \<le> length a" "32 \<le> length b"
  shows "keyhandle_check a b = (if take 32 a = take 32 b then 1 else 0)"
proof -
  have "(\<forall>i<32. a ! i = b ! i) \<longleftrightarrow> take 32 a = take 32 b"
    using assms by (auto simp: list_eq_iff_nth_eq)
  then show ?thesis
    unfolding keyhandle_check_def fold_check by simp
qed

lemma blake2s_mac_eq:
  assumes "32 \<le> length part1" "32 \<le> length part2"
  shows "blake2s_mac P part1 part2 s =
    (MAC P (secret s) part1 part2,
     log_call (Call_blake2s 32 (take 32 (words_bytes (secret s))) (take 32 part1 @ take 32 part2)) s)"
  using assms by (simp add: blake2s_mac_def MAC_def memcpy_def Let_def)

lemma length_MAC: "prims_ok P \<Longrightarrow> length (MAC P S a b) = 32"
  by (simp add: MAC_def prims_ok_def)

lemma sense_frame:
  "secret (sense M p s) = secret s" "ctr (sense M p s) = ctr s" "state (sense M p s) = state s"
  "trng_polls (sense M p s) = trng_polls s" "calls (sense M p s) = calls s"
  "touch_polls (sense M p s) = touch_polls s"
  by (simp_all add: sense_def)

lemma wait_loop_frame:
  "wait_loop M lv on i s = Some (t, s') \<Longrightarrow>
     secret s' = secret s \<and> ctr s' = ctr s \<and> state s' = state s \<and>
     trng_polls s' = trng_polls s \<and> calls s' = calls s \<and> (t = 0 \<or> t = 1)"
proof (induction M lv on i s rule: wait_loop.induct)
  case (1 M ledvalue led_on i s)
  show ?case
  proof (cases "i < loopcount")
    case True
    then show ?thesis
      using "1.prems" "1.IH"(1)
      by (subst (asm) wait_loop.simps) (auto simp: sense_frame split: list.splits if_splits)
  next
    case False
    then show ?thesis
      using "1.prems" "1.IH"(2)
      by (subst (asm) wait_loop.simps) auto
  qed
qed

lemma wait_touched_frame:
  "wait_touched M lv s = Some (t, s') \<Longrightarrow>
     secret s' = secret s \<and> ctr s' = ctr s \<and> state s' = state s \<and>
     trng_polls s' = trng_polls s \<and> calls s' = calls s \<and> (t = 0 \<or> t = 1)"
  unfolding wait_touched_def Let_def
  by (auto split: option.splits dest!: wait_loop_frame)

lemma authenticate_sign_atomic:
  "authenticate_sign P M payload a c cn priv v up s = (ret, payload', s') \<Longrightarrow> ret \<noteq> 0 \<Longrightarrow> payload' = payload"
  unfolding authenticate_sign_def Let_def
  by (auto split: if_splits prod.splits)

lemma for_loop_invariant:
  assumes "\<And>i a a'. I a \<Longrightarrow> body i a = Some a' \<Longrightarrow> I a'"
  shows "I a \<Longrightarrow> for_loop body is a = Some a' \<Longrightarrow> I a'"
proof (induction "is" arbitrary: a)
  case Nil
  then show ?case by simp
next
  case (Cons i "is")
  then show ?case
    using assms by (auto split: option.splits)
qed

lemma length_output_w32: "length (output_w32 out off w) = length out"
  by (simp add: output_w32_def)

lemma fold_state_secret:
  "secret (fold (\<lambda>i s. s\<lparr>state := f i s\<rparr>) is s) = secret s"
  by (induction "is" arbitrary: s) auto

lemma update_rng_state_secret:
  assumes "update_rng_state d s = Some s'"
  shows "secret s' = secret s"
proof -
  let ?body = "\<lambda>i s. case get_w32_entropy s of None \<Rightarrow> None
                    | Some (w, s) \<Rightarrow> Some (s\<lparr>state := (state s)[i + 8 := w]\<rparr>)"
  have inv: "secret a' = secret s" if "secret a = secret s" "?body i a = Some a'" for i a a'
    using that by (auto simp: get_w32_entropy_def split: option.splits)
  have "secret a' = secret s" if "secret a = secret s" "for_loop ?body is a = Some a'" for "is" a a'
    using that(1) that(2) inv
    by (rule for_loop_invariant [where I = "\<lambda>a. secret a = secret s" and body = ?body, rotated 1])
  note loop = this
  let ?f = "fold (\<lambda>i s. s\<lparr>state := (state s)[i := d ! i]\<rparr>) [0..<8] s"
  let ?s1 = "?f\<lparr>ctr := ctr ?f + 1\<rparr>"
  let ?s2 = "?s1\<lparr>state := (state ?s1)[15 := state ?s1 ! 15 + ctr ?s1]\<rparr>"
  have s2: "secret ?s2 = secret s"
    by (simp add: fold_state_secret)
  have def: "update_rng_state d s =
      (if ctr ?s2 = RESEED_TIME then
         (case for_loop ?body [0..<8] ?s2 of
            None \<Rightarrow> None | Some s \<Rightarrow> Some (s\<lparr>ctr := 0\<rparr>))
       else Some ?s2)"
    unfolding update_rng_state_def Let_def ..
  show ?thesis
  proof (cases "ctr ?s2 = RESEED_TIME")
    case True
    with assms def obtain s3 where s3: "for_loop ?body [0..<8] ?s2 = Some s3" "s' = s3\<lparr>ctr := 0\<rparr>"
      by (auto split: option.splits)
    from loop [OF s2 s3(1)] s3(2) show ?thesis by simp
  next
    case False
    with assms def have "s' = ?s2" by simp
    with s2 show ?thesis by simp
  qed
qed

lemma rng_block_frame:
  assumes "rng_block P b (out, s) = Some (out', s')"
  shows "length out' = length out \<and> secret s' = secret s"
proof -
  let ?inp = "words_bytes (state s)"
  let ?d = "bytes_words (blake2s P 32 [] ?inp)"
  let ?o = "fold (\<lambda>i output. output_w32 output (b * 16 + i * 4) (?d ! i)) [0..<4] out"
  have u: "[0..<4] = [0, 1, 2, 3]" by (simp add: upt_rec)
  have lo: "length ?o = length out"
    unfolding u by (simp add: length_output_w32)
  from assms obtain s1 where s1: "update_rng_state ?d (log_call (Call_blake2s 32 [] ?inp) s) = Some s1"
    and r: "out' = ?o" "s' = s1"
    unfolding rng_block_def Let_def prod.case by (auto split: option.splits)
  from update_rng_state_secret [OF s1] r lo show ?thesis
    by (simp add: log_call_def)
qed

lemma rng_generate_frame:
  assumes "rng_generate P out n s = Some (ret, out', s')"
  shows "length out' = length out \<and> secret s' = secret s"
proof -
  let ?I = "\<lambda>a :: bytes \<times> dev. length (fst a) = length out \<and> secret (snd a) = secret s"
  have "?I a'" if "for_loop (rng_block P) is (out, s) = Some a'" for "is" a'
  proof (rule for_loop_invariant [where I = ?I and body = "rng_block P", OF _ _ that])
    show "?I (out, s)" by simp
  next
    fix i a a'
    assume "?I a" "rng_block P i a = Some a'"
    then show "?I a'"
      using rng_block_frame [of P i "fst a" "snd a" "fst a'" "snd a'"] by simp
  qed
  note loop = this
  show ?thesis
  proof (cases "n = 0 \<or> unat n mod 16 \<noteq> 0")
    case True
    with assms show ?thesis
      by (auto simp: rng_generate_def split: if_splits)
  next
    case False
    then have g: "rng_generate P out n s =
        (case for_loop (rng_block P) [0..<unat n div 16] (out, s) of
           None \<Rightarrow> None | Some (out, s') \<Rightarrow> Some (0, out, s'))"
      by (simp add: rng_generate_def)
    show ?thesis
    proof (cases "for_loop (rng_block P) [0..<unat n div 16] (out, s)")
      case None
      with assms g show ?thesis by simp
    next
      case (Some a')
      with assms g have "out' = fst a'" "s' = snd a'"
        by (simp_all add: case_prod_beta)
      with loop [OF Some] show ?thesis by simp
    qed
  qed
qed

lemma authenticate_head:
  assumes "prims_ok P" "32 \<le> length appli_param" "64 \<le> length keyhandle"
  shows "u2f_authenticate P M payload appli_param chall_param keyhandle check_user counter s =
    (let priv = MAC P (secret s) appli_param keyhandle;
         key = take 32 (words_bytes (secret s));
         s = s\<lparr>calls := calls s @ [Call_blake2s 32 key (take 32 appli_param @ take 32 keyhandle),
                                     Call_blake2s 32 key (take 32 appli_param @ priv)]\<rparr>
     in if \<not> handle_valid P (secret s) appli_param keyhandle then Some (0, payload[0 := 0], s)
        else if check_user ! 0 \<noteq> 0 then
          (case wait_touched M (U2F_AUTHENTICATE_LEDVALUE M) s of
             None \<Rightarrow> None
           | Some (touched, s) \<Rightarrow>
               if touched = 0 then Some (0, payload[0 := 1, 1 := 0], s)
               else Some (authenticate_sign P M payload appli_param chall_param counter priv 1 1 s))
        else Some (authenticate_sign P M payload appli_param chall_param counter priv 1 0 s))"
proof -
  let ?priv = "MAC P (secret s) appli_param keyhandle"
  have lp: "length ?priv = 32"
    by (rule length_MAC [OF assms(1)])
  have m1: "blake2s_mac P appli_param keyhandle s' =
      (MAC P (secret s') appli_param keyhandle,
       log_call (Call_blake2s 32 (take 32 (words_bytes (secret s'))) (take 32 appli_param @ take 32 keyhandle)) s')" for s'
    using assms by (intro blake2s_mac_eq) simp_all
  have m2: "blake2s_mac P appli_param ?priv s' =
      (MAC P (secret s') appli_param ?priv,
       log_call (Call_blake2s 32 (take 32 (words_bytes (secret s'))) (take 32 appli_param @ ?priv)) s')" for s'
    using assms lp blake2s_mac_eq [of appli_param ?priv P s'] by simp
  have kc: "keyhandle_check (drop 32 keyhandle) (MAC P (secret s) appli_param ?priv) =
      (if handle_valid P (secret s) appli_param keyhandle then 1 else 0)"
    using assms(3) length_MAC [OF assms(1), of "secret s" appli_param ?priv]
    by (subst keyhandle_check_eq) (simp_all add: handle_valid_def)
  show ?thesis
    unfolding u2f_authenticate_def Let_def m1 prod.case m2
    by (simp add: log_call_def kc split: option.splits)
qed

lemma sig_data_eq:
  assumes "32 \<le> length appli_param" "32 \<le> length chall_param" "4 \<le> length counter"
  shows "memcpy (memcpy ((memcpy (replicate (32 + 1 + 4 + 32) 0) 0 appli_param 0 32)[32 := up])
            (32 + 1) counter 0 4) (32 + 1 + 4) chall_param 0 32 =
         take 32 appli_param @ [up] @ take 4 counter @ take 32 chall_param"
  using assms by (simp add: memcpy_def upd_conv_take_nth_drop)

lemma payload_eq:
  assumes "66 \<le> length payload" "length sig = 64"
  shows "memcpy (payload[0 := v, 1 := up]) 2 sig 0 64 = [v, up] @ sig @ drop 66 payload"
proof -
  from assms(1) have "2 \<le> length payload" by simp
  then obtain a b rest where "payload = a # b # rest"
    by (auto simp: numeral_eq_Suc Suc_le_length_iff)
  then show ?thesis
    using assms by (simp add: memcpy_def)
qed

lemma authenticate_sign_eq:
  assumes "prims_ok P" "32 \<le> length appli_param" "32 \<le> length chall_param" "4 \<le> length counter"
    "66 \<le> length payload"
  shows "authenticate_sign P M payload appli_param chall_param counter priv 1 up s =
    (let msg = take 32 appli_param @ [up] @ take 4 counter @ take 32 chall_param;
         h = calc_sha_256 P msg 69;
         s = s\<lparr>led := U2F_AUTHENTICATE_LEDVALUE M,
                calls := calls s @ [Call_calc_sha_256 msg 69, Call_p256_ecdsa_sign priv h 32]\<rparr>
     in if fst (p256_ecdsa_sign P priv h 32) \<noteq> 0
        then (fst (p256_ecdsa_sign P priv h 32), payload, s)
        else (0, [1, up] @ snd (p256_ecdsa_sign P priv h 32) @ drop 66 payload, s))"
proof -
  have ls: "length (snd (p256_ecdsa_sign P priv h n)) = 64" for h n
    using assms(1) by (simp add: prims_ok_def)
  show ?thesis
    unfolding authenticate_sign_def Let_def sig_data_eq [OF assms(2,3,4)]
    using payload_eq [OF assms(5) ls]
    by (simp add: log_call_def case_prod_beta)
qed

lemma stub_MAC: "32 \<le> length a \<Longrightarrow> MAC stub_prims S a b = replicate 32 (a ! 0)"
  by (simp add: MAC_def stub_prims_def nth_append)

text \<open>
  C4. When the key handle fails the MAC check, \<open>u2f_authenticate\<close> returns 0, writes 0 into
  the first payload byte and nothing else into the payload, and leaves the device as it
  was but for the two MAC computations of the check: the touch gate is not entered (timer,
  touch and LED registers and the polls to come are as before) and neither the hash nor the
  signature primitive is called, whatever \<open>check_user\<close> holds.
\<close>

theorem authenticate_short_circuit:
  assumes "prims_ok P" "32 \<le> length appli_param" "64 \<le> length keyhandle"
    and "\<not> handle_valid P (secret s) appli_param keyhandle"
  shows "u2f_authenticate P M payload appli_param chall_param keyhandle check_user counter s =
    Some (0, payload[0 := 0],
          s\<lparr>calls := calls s @
             [Call_blake2s 32 (take 32 (words_bytes (secret s))) (take 32 appli_param @ take 32 keyhandle),
              Call_blake2s 32 (take 32 (words_bytes (secret s)))
                (take 32 appli_param @ MAC P (secret s) appli_param keyhandle)]\<rparr>)"
  unfolding authenticate_head [OF assms(1,2,3)] Let_def
  using assms(4) by simp

theorem authenticate_short_circuit_witness:
  "prims_ok stub_prims \<and> 32 \<le> length (replicate 32 (3 :: u8)) \<and> 64 \<le> length (replicate 64 (9 :: u8)) \<and>
   \<not> handle_valid stub_prims (secret (dev0 [touch_now] [])) (replicate 32 3) (replicate 64 9) \<and>
   u2f_authenticate stub_prims tk1 (replicate 127 0) (replicate 32 3) (replicate 32 4) (replicate 64 9)
     [1] [0, 0, 0, 1] (dev0 [touch_now] []) =
   Some (0, (replicate 127 0)[0 := 0],
         (dev0 [touch_now] [])\<lparr>calls := calls (dev0 [touch_now] []) @
            [Call_blake2s 32 (take 32 (words_bytes (secret (dev0 [touch_now] []))))
               (take 32 (replicate 32 3) @ take 32 (replicate 64 9)),
             Call_blake2s 32 (take 32 (words_bytes (secret (dev0 [touch_now] []))))
               (take 32 (replicate 32 3) @
                MAC stub_prims (secret (dev0 [touch_now] [])) (replicate 32 3) (replicate 64 9))]\<rparr>)"
proof -
  have h: "prims_ok stub_prims" "32 \<le> length (replicate 32 (3 :: u8))"
    "64 \<le> length (replicate 64 (9 :: u8))"
    "\<not> handle_valid stub_prims (secret (dev0 [touch_now] [])) (replicate 32 3) (replicate 64 9)"
    by (simp_all add: prims_ok_stub handle_valid_def stub_MAC)
  show ?thesis
    using h authenticate_short_circuit [OF h] by simp
qed

text \<open>
  C3. When \<open>u2f_authenticate\<close> returns 0 for a valid key handle and user presence is
  established where it was asked for (\<open>check_user\<close> non-zero and the presence byte 1; with
  \<open>check_user\<close> zero the code signs with presence 0), the signature primitive was called
  on the private key \<open>MAC_S(app_param \<parallel> KH[0..32])\<close> and on the hash of the 69 bytes
  \<open>app_param \<parallel> presence \<parallel> counter \<parallel> chall_param\<close>, it returned 0, and the payload is
  \<open>1 \<parallel> presence \<parallel> sig\<close>, 66 bytes, followed by what the buffer held.
\<close>

theorem authenticate_signature:
  assumes "prims_ok P" "32 \<le> length appli_param" "32 \<le> length chall_param"
    "64 \<le> length keyhandle" "4 \<le> length counter" "66 \<le> length payload"
    and "handle_valid P (secret s) appli_param keyhandle"
    and "u2f_authenticate P M payload appli_param chall_param keyhandle check_user counter s =
           Some (0, payload', s')"
    and "check_user ! 0 \<noteq> 0 \<longrightarrow> payload' ! 1 = 1"
  shows "let presence = (if check_user ! 0 \<noteq> 0 then 1 else 0);
             priv = MAC P (secret s) appli_param keyhandle;
             msg = take 32 appli_param @ [presence] @ take 4 counter @ take 32 chall_param;
             hash = calc_sha_256 P msg 69;
             sig = snd (p256_ecdsa_sign P priv hash 32)
         in length msg = 69 \<and> fst (p256_ecdsa_sign P priv hash 32) = 0 \<and> length sig = 64 \<and>
            payload' = [1, presence] @ sig @ drop 66 payload \<and>
            calls s' = calls s @
              [Call_blake2s 32 (take 32 (words_bytes (secret s))) (take 32 appli_param @ take 32 keyhandle),
               Call_blake2s 32 (take 32 (words_bytes (secret s))) (take 32 appli_param @ priv),
               Call_calc_sha_256 msg 69, Call_p256_ecdsa_sign priv hash 32]"
proof -
  let ?priv = "MAC P (secret s) appli_param keyhandle"
  let ?s2 = "s\<lparr>calls := calls s @
     [Call_blake2s 32 (take 32 (words_bytes (secret s))) (take 32 appli_param @ take 32 keyhandle),
      Call_blake2s 32 (take 32 (words_bytes (secret s))) (take 32 appli_param @ ?priv)]\<rparr>"
  note sg = authenticate_sign_eq [OF assms(1,2,3,5,6), of M ?priv]
  have ls: "length (snd (p256_ecdsa_sign P priv h n)) = 64" for priv h n
    using assms(1) by (simp add: prims_ok_def)
  have lm: "length (take 32 appli_param @ [up] @ take 4 counter @ take 32 chall_param) = 69" for up
    using assms(2,3,5) by simp
  have p1: "(payload[0 := 1, 1 := 0]) ! 1 = 0"
    using assms(6) by simp
  show ?thesis
  proof (cases "check_user ! 0 \<noteq> 0")
    case True
    with assms(8) [unfolded authenticate_head [OF assms(1,2,4)] Let_def] assms(7)
    obtain touched s1 where w: "wait_touched M (U2F_AUTHENTICATE_LEDVALUE M) ?s2 = Some (touched, s1)"
      and r: "(if touched = 0 then Some (0, payload[0 := 1, 1 := 0], s1)
               else Some (authenticate_sign P M payload appli_param chall_param counter ?priv 1 1 s1)) =
              Some (0, payload', s')"
      by (auto split: option.splits)
    have "touched \<noteq> 0"
      using r assms(9) True p1 by (auto split: if_splits)
    with r have a: "authenticate_sign P M payload appli_param chall_param counter ?priv 1 1 s1 = (0, payload', s')"
      by simp
    have c: "calls s1 = calls ?s2"
      using wait_touched_frame [OF w] by simp
    show ?thesis
      using a [unfolded sg Let_def] True c ls lm
      by (auto simp: Let_def split: if_splits)
  next
    case False
    with assms(8) [unfolded authenticate_head [OF assms(1,2,4)] Let_def] assms(7)
    have a: "authenticate_sign P M payload appli_param chall_param counter ?priv 1 0 ?s2 = (0, payload', s')"
      by simp
    show ?thesis
      using a [unfolded sg Let_def] False ls lm
      by (auto simp: Let_def split: if_splits)
  qed
qed

lemma register_output_eq:
  assumes "129 \<le> length out" "length nonce = 32" "length mac = 32" "length pub = 64"
  shows "memcpy (memcpy (memcpy (out[0 := v]) 1 nonce 0 32) (1 + 32) mac 0 32) (1 + 32 + 32) pub 0 64 =
         [v] @ nonce @ mac @ pub @ drop 129 out"
proof -
  from assms(1) have "1 \<le> length out" by simp
  then obtain a rest where "out = a # rest"
    by (auto simp: Suc_le_length_iff)
  then show ?thesis
    using assms by (simp add: memcpy_def)
qed

lemma u2f_register_run:
  assumes w: "wait_touched M (U2F_REGISTER_LEDVALUE M) s = Some (1, s1)"
    and g: "rng_generate P (replicate 32 0) 32 (s1\<lparr>led := U2F_REGISTER_LEDVALUE M\<rparr>) = Some (r, nonce, s2)"
    and P: "prims_ok P" and la: "32 \<le> length appli_param" and lo: "129 \<le> length out"
  shows "length nonce = 32 \<and> secret s2 = secret s \<and>
    u2f_register P M out appli_param s =
    (let priv = MAC P (secret s) appli_param nonce;
         key = take 32 (words_bytes (secret s));
         s3 = s2\<lparr>calls := calls s2 @ [Call_blake2s 32 key (take 32 appli_param @ nonce),
                                       Call_p256_keypair_from_bytes priv]\<rparr>
     in if fst (p256_keypair_from_bytes P priv) \<noteq> 0
        then Some (fst (p256_keypair_from_bytes P priv), out, s3)
        else Some (0, [1] @ nonce @ MAC P (secret s) appli_param priv @
                      snd (p256_keypair_from_bytes P priv) @ drop 129 out,
                   s3\<lparr>calls := calls s3 @ [Call_blake2s 32 key (take 32 appli_param @ priv)]\<rparr>))"
proof -
  have ln: "length nonce = 32"
    using rng_generate_frame [OF g] by simp
  have sec: "secret s2 = secret s"
    using rng_generate_frame [OF g] wait_touched_frame [OF w] by simp
  let ?priv = "MAC P (secret s) appli_param nonce"
  have lp: "length ?priv = 32"
    by (rule length_MAC [OF P])
  have m1: "blake2s_mac P appli_param nonce s2 =
      (?priv, log_call (Call_blake2s 32 (take 32 (words_bytes (secret s))) (take 32 appli_param @ nonce)) s2)"
    using blake2s_mac_eq [of appli_param nonce P s2] la ln sec by simp
  have m2: "blake2s_mac P appli_param ?priv s' =
      (MAC P (secret s') appli_param ?priv,
       log_call (Call_blake2s 32 (take 32 (words_bytes (secret s'))) (take 32 appli_param @ ?priv)) s')" for s'
    using blake2s_mac_eq [of appli_param ?priv P s'] la lp by simp
  have lpub: "length (snd (p256_keypair_from_bytes P ?priv)) = 64"
    using P by (simp add: prims_ok_def)
  note ro = register_output_eq [OF lo ln length_MAC [OF P] lpub]
  have "u2f_register P M out appli_param s =
    (let priv = MAC P (secret s) appli_param nonce;
         key = take 32 (words_bytes (secret s));
         s3 = s2\<lparr>calls := calls s2 @ [Call_blake2s 32 key (take 32 appli_param @ nonce),
                                       Call_p256_keypair_from_bytes priv]\<rparr>
     in if fst (p256_keypair_from_bytes P priv) \<noteq> 0
        then Some (fst (p256_keypair_from_bytes P priv), out, s3)
        else Some (0, [1] @ nonce @ MAC P (secret s) appli_param priv @
                      snd (p256_keypair_from_bytes P priv) @ drop 129 out,
                   s3\<lparr>calls := calls s3 @ [Call_blake2s 32 key (take 32 appli_param @ priv)]\<rparr>))"
    unfolding u2f_register_def w g option.case prod.case Let_def m1 m2
    using ro by (simp add: log_call_def case_prod_beta sec)
  with ln sec show ?thesis by simp
qed

lemma u2f_checkonly_eq:
  assumes "prims_ok P" "32 \<le> length appli_param" "64 \<le> length keyhandle"
  shows "u2f_checkonly P payload appli_param keyhandle s =
    (payload[0 := (if handle_valid P (secret s) appli_param keyhandle then 1 else 0)],
     s\<lparr>calls := calls s @
        [Call_blake2s 32 (take 32 (words_bytes (secret s))) (take 32 appli_param @ take 32 keyhandle),
         Call_blake2s 32 (take 32 (words_bytes (secret s)))
           (take 32 appli_param @ MAC P (secret s) appli_param keyhandle)]\<rparr>)"
proof -
  let ?priv = "MAC P (secret s) appli_param keyhandle"
  have lp: "length ?priv = 32"
    by (rule length_MAC [OF assms(1)])
  have m1: "blake2s_mac P appli_param keyhandle s' =
      (MAC P (secret s') appli_param keyhandle,
       log_call (Call_blake2s 32 (take 32 (words_bytes (secret s'))) (take 32 appli_param @ take 32 keyhandle)) s')" for s'
    using assms by (intro blake2s_mac_eq) simp_all
  have m2: "blake2s_mac P appli_param ?priv s' =
      (MAC P (secret s') appli_param ?priv,
       log_call (Call_blake2s 32 (take 32 (words_bytes (secret s'))) (take 32 appli_param @ ?priv)) s')" for s'
    using assms lp blake2s_mac_eq [of appli_param ?priv P s'] by simp
  have kc: "keyhandle_check (drop 32 keyhandle) (MAC P (secret s) appli_param ?priv) =
      (if handle_valid P (secret s) appli_param keyhandle then 1 else 0)"
    using assms(3) length_MAC [OF assms(1), of "secret s" appli_param ?priv]
    by (subst keyhandle_check_eq) (simp_all add: handle_valid_def)
  show ?thesis
    unfolding u2f_checkonly_def Let_def m1 prod.case m2
    by (simp add: log_call_def kc)
qed

lemmas touch_eval = wait_touched_def wait_loop.simps sense_def loopcount_def tk1_def dev0_def
  touch_now_def idle_now_def timeout_now_def

lemma register_stub_run:
  assumes "32 \<le> length app" "129 \<le> length out"
  shows "\<exists>nonce s2. length nonce = 32 \<and> secret s2 = replicate 8 5 \<and>
    u2f_register stub_prims tk1 out app (dev0 [idle_now, touch_now] []) =
      (if app ! 0 = 0
       then Some (- 1, out, s2\<lparr>calls := calls s2 @
               [Call_blake2s 32 (take 32 (words_bytes (replicate 8 5))) (take 32 app @ nonce),
                Call_p256_keypair_from_bytes (replicate 32 (app ! 0))]\<rparr>)
       else Some (0, [1] @ nonce @ replicate 32 (app ! 0) @ replicate 64 (app ! 0 + 1) @ drop 129 out,
              s2\<lparr>calls := calls s2 @
               [Call_blake2s 32 (take 32 (words_bytes (replicate 8 5))) (take 32 app @ nonce),
                Call_p256_keypair_from_bytes (replicate 32 (app ! 0)),
                Call_blake2s 32 (take 32 (words_bytes (replicate 8 5)))
                  (take 32 app @ replicate 32 (app ! 0))]\<rparr>))"
proof -
  let ?s = "dev0 [idle_now, touch_now] []"
  let ?s1 = "(dev0 [] [])\<lparr>timer_ctrl := 1, timer_prescaler := 18000000, timer := 10\<rparr>"
  have w: "wait_touched tk1 (U2F_REGISTER_LEDVALUE tk1) ?s = Some (1, ?s1)"
    by (simp add: touch_eval U2F_REGISTER_LEDVALUE_def LED_BLUE_def LED_BLACK_def TKEY_HZ_def
        U2F_TOUCH_TIMEOUT_SECS_def)
  obtain nonce s2 where
    g: "rng_generate stub_prims (replicate 32 0) 32 (?s1\<lparr>led := U2F_REGISTER_LEDVALUE tk1\<rparr>) =
          Some (0, nonce, s2)"
    using rng_generate_total [of "?s1\<lparr>led := U2F_REGISTER_LEDVALUE tk1\<rparr>" 32 stub_prims "replicate 32 0"]
    by (auto simp: dev0_def)
  have sec: "secret ?s = replicate 8 5"
    by (simp add: dev0_def)
  have kp: "p256_keypair_from_bytes stub_prims (replicate 32 x) =
      (if x = 0 then - 1 else 0, replicate 64 (x + 1))" for x
    by (simp add: stub_prims_def)
  from u2f_register_run [OF w g prims_ok_stub assms]
  show ?thesis
    unfolding Let_def sec
    using assms(1) by (auto simp: stub_MAC kp intro!: exI [of _ nonce] exI [of _ s2])
qed

text \<open>
  C1. If \<open>u2f_register\<close> returns 0 with presence byte 1 for \<open>appli_param\<close>, the 64 bytes it
  wrote after the presence byte are \<open>N \<parallel> MAC_S(app_param \<parallel> MAC_S(app_param \<parallel> N))\<close> for
  a 32-byte \<open>N\<close>, and \<open>u2f_checkonly\<close> on the same \<open>appli_param\<close> and on a key handle that
  starts with these 64 bytes, on a device with the same secret, sets its payload byte to 1.
\<close>

theorem register_checkonly_roundtrip:
  assumes "prims_ok P" "32 \<le> length appli_param" "129 \<le> length out"
    and "u2f_register P M out appli_param s = Some (0, out', s')"
    and "out' ! 0 = 1"
    and "64 \<le> length keyhandle" "take 64 keyhandle = take 64 (drop 1 out')"
    and "secret t = secret s" "0 < length payload"
  shows "(\<exists>N. length N = 32 \<and>
            take 64 keyhandle = N @ MAC P (secret s) appli_param (MAC P (secret s) appli_param N)) \<and>
         fst (u2f_checkonly P payload appli_param keyhandle t) ! 0 = 1"
proof -
  from assms(4) obtain up s1 where w: "wait_touched M (U2F_REGISTER_LEDVALUE M) s = Some (up, s1)"
    by (auto simp: u2f_register_def split: option.splits)
  have up: "up = 1"
  proof (rule ccontr)
    assume "up \<noteq> 1"
    with wait_touched_frame [OF w] have "up = 0" by simp
    with assms(4) w have "out' = out[0 := 0]"
      by (simp add: u2f_register_def)
    moreover have "0 < length out" using assms(3) by linarith
    ultimately show False using assms(5) by simp
  qed
  from assms(4) w up obtain r nonce s2 where
    g: "rng_generate P (replicate 32 0) 32 (s1\<lparr>led := U2F_REGISTER_LEDVALUE M\<rparr>) = Some (r, nonce, s2)"
    by (auto simp: u2f_register_def split: option.splits)
  let ?priv = "MAC P (secret s) appli_param nonce"
  let ?T = "MAC P (secret s) appli_param ?priv"
  note run = u2f_register_run [OF w [unfolded up] g assms(1,2,3)]
  then have ln: "length nonce = 32" by simp
  have lT: "length ?T = 32"
    by (rule length_MAC [OF assms(1)])
  from run assms(4) have "out' = [1] @ nonce @ ?T @ snd (p256_keypair_from_bytes P ?priv) @ drop 129 out"
    by (auto simp: Let_def split: if_splits)
  then have "take 64 (drop 1 out') = nonce @ ?T"
    using ln lT by simp
  with assms(7) have kh: "take 64 keyhandle = nonce @ ?T"
    by simp
  have "take 32 (take 64 keyhandle) = nonce" "take 32 (drop 32 (take 64 keyhandle)) = ?T"
    unfolding kh using ln lT by simp_all
  then have k1: "take 32 keyhandle = nonce" and k2: "take 32 (drop 32 keyhandle) = ?T"
    by (simp_all add: drop_take)
  have "MAC P (secret s) appli_param keyhandle = ?priv"
    using k1 ln by (simp add: MAC_def)
  with k2 have v: "handle_valid P (secret t) appli_param keyhandle"
    by (simp add: handle_valid_def assms(8))
  show ?thesis
    using kh ln v assms(9)
    by (auto simp: u2f_checkonly_eq [OF assms(1,2,6)])
qed

theorem register_checkonly_roundtrip_witness:
  "\<exists>out' s'. prims_ok stub_prims \<and> 32 \<le> length (replicate 32 (3 :: u8)) \<and>
     129 \<le> length (replicate 129 (9 :: u8)) \<and>
     u2f_register stub_prims tk1 (replicate 129 9) (replicate 32 3) (dev0 [idle_now, touch_now] []) =
       Some (0, out', s') \<and>
     out' ! 0 = 1 \<and> 64 \<le> length (take 64 (drop 1 out')) \<and>
     take 64 (take 64 (drop 1 out')) = take 64 (drop 1 out') \<and>
     secret s' = secret (dev0 [idle_now, touch_now] []) \<and> 0 < length [0 :: u8] \<and>
     fst (u2f_checkonly stub_prims [0] (replicate 32 3) (take 64 (drop 1 out')) s') ! 0 = 1"
proof -
  from register_stub_run [of "replicate 32 3" "replicate 129 9"]
  obtain out' s' where
    r: "u2f_register stub_prims tk1 (replicate 129 9) (replicate 32 3) (dev0 [idle_now, touch_now] []) =
          Some (0, out', s')"
    and o: "out' ! 0 = 1" and l: "129 \<le> length out'"
    and s: "secret s' = secret (dev0 [idle_now, touch_now] [])"
    by (auto simp: dev0_def)
  have h: "prims_ok stub_prims" "32 \<le> length (replicate 32 (3 :: u8))"
    "129 \<le> length (replicate 129 (9 :: u8))"
    by (simp_all add: prims_ok_stub)
  have k: "64 \<le> length (take 64 (drop 1 out'))"
    "take 64 (take 64 (drop 1 out')) = take 64 (drop 1 out')" "0 < length [0 :: u8]"
    using l by simp_all
  from register_checkonly_roundtrip [OF h r o k(1,2) s k(3)] h r o k s
  show ?thesis by blast
qed

lemma stub_valid: "handle_valid stub_prims S (replicate 32 3) (replicate 32 7 @ replicate 32 3)"
  by (simp add: handle_valid_def stub_MAC)

lemma touch_run:
  "wait_touched tk1 lv ((dev0 [idle_now, touch_now] rps)\<lparr>calls := cs\<rparr>) =
     Some (1, (dev0 [] rps)\<lparr>timer_ctrl := 1, timer_prescaler := 18000000, timer := 10, calls := cs\<rparr>)"
  by (simp add: touch_eval LED_BLACK_def TKEY_HZ_def U2F_TOUCH_TIMEOUT_SECS_def)

lemma stub_sha: "calc_sha_256 stub_prims m n = replicate 32 (m ! 33)"
  by (simp add: stub_prims_def)

lemma stub_sign:
  "p256_ecdsa_sign stub_prims priv h n = (if h ! 0 = 0 then - 1 else 0, replicate 64 (priv ! 0 + h ! 0))"
  by (simp add: stub_prims_def)

lemma authenticate_stub_run:
  assumes l: "32 \<le> length app" "32 \<le> length chall" "64 \<le> length kh" "4 \<le> length counter"
      "66 \<le> length payload"
    and v: "take 32 (drop 32 kh) = replicate 32 (app ! 0)"
    and t: "cu ! 0 \<noteq> 0 \<longrightarrow> tps = [idle_now, touch_now]"
  shows "\<exists>s'. Call_p256_ecdsa_sign (replicate 32 (app ! 0)) (replicate 32 (counter ! 0)) 32 \<in> set (calls s') \<and>
    u2f_authenticate stub_prims tk1 payload app chall kh cu counter (dev0 tps rps) =
      (if counter ! 0 = 0 then Some (- 1, payload, s')
       else Some (0, [1, if cu ! 0 \<noteq> 0 then 1 else 0] @ replicate 64 (app ! 0 + counter ! 0) @
                     drop 66 payload, s'))"
proof -
  have s: "secret (dev0 tps rps) = replicate 8 5" "calls (dev0 tps rps) = []"
    by (simp_all add: dev0_def)
  have valid: "handle_valid stub_prims S app kh" for S
    using l(1) v by (simp add: handle_valid_def stub_MAC)
  have led: "U2F_AUTHENTICATE_LEDVALUE tk1 = 2"
    by (simp add: U2F_AUTHENTICATE_LEDVALUE_def LED_GREEN_def tk1_def)
  have m: "(take 32 app @ up # take 4 counter @ take 32 chall) ! 33 = counter ! 0" for up
    using l by (simp add: nth_append)
  show ?thesis
  proof (cases "cu ! 0 \<noteq> 0")
    case True
    with t have tps: "tps = [idle_now, touch_now]" by simp
    show ?thesis
      unfolding authenticate_head [OF prims_ok_stub l(1,3)] Let_def s tps
      using True l(1)
      by (simp add: valid stub_MAC touch_run authenticate_sign_eq [OF prims_ok_stub l(1,2,4,5)]
          Let_def stub_sha stub_sign m led)
  next
    case False
    show ?thesis
      unfolding authenticate_head [OF prims_ok_stub l(1,3)] Let_def s
      using False l(1)
      by (simp add: valid stub_MAC authenticate_sign_eq [OF prims_ok_stub l(1,2,4,5)]
          Let_def stub_sha stub_sign m led)
  qed
qed

theorem authenticate_signature_witness:
  "\<exists>payload' s'. prims_ok stub_prims \<and> 32 \<le> length (replicate 32 (3 :: u8)) \<and>
     32 \<le> length (replicate 32 (4 :: u8)) \<and> 64 \<le> length (replicate 32 (7 :: u8) @ replicate 32 3) \<and>
     4 \<le> length [5 :: u8, 0, 0, 1] \<and> 66 \<le> length (replicate 127 (0 :: u8)) \<and>
     handle_valid stub_prims (secret (dev0 [idle_now, touch_now] [])) (replicate 32 3)
       (replicate 32 7 @ replicate 32 3) \<and>
     u2f_authenticate stub_prims tk1 (replicate 127 0) (replicate 32 3) (replicate 32 4)
       (replicate 32 7 @ replicate 32 3) [1] [5, 0, 0, 1] (dev0 [idle_now, touch_now] []) =
       Some (0, payload', s') \<and>
     [1 :: u8] ! 0 \<noteq> 0 \<and> payload' ! 1 = 1 \<and>
     payload' =
       [1, 1] @
       snd (p256_ecdsa_sign stub_prims
              (MAC stub_prims (secret (dev0 [idle_now, touch_now] [])) (replicate 32 3)
                 (replicate 32 7 @ replicate 32 3))
              (calc_sha_256 stub_prims
                 (take 32 (replicate 32 3) @ [1] @ take 4 [5, 0, 0, 1] @ take 32 (replicate 32 4)) 69) 32) @
       drop 66 (replicate 127 0)"
proof -
  let ?s = "dev0 [idle_now, touch_now] []"
  obtain payload' s' where
    r: "u2f_authenticate stub_prims tk1 (replicate 127 0) (replicate 32 3) (replicate 32 4)
          (replicate 32 7 @ replicate 32 3) [1] [5, 0, 0, 1] ?s = Some (0, payload', s')"
    and p1: "payload' ! 1 = 1"
    using authenticate_stub_run [of "replicate 32 3" "replicate 32 4" "replicate 32 7 @ replicate 32 3"
        "[5, 0, 0, 1]" "replicate 127 0" "[1]" "[idle_now, touch_now]" "[]"]
    by auto
  have h: "prims_ok stub_prims" "32 \<le> length (replicate 32 (3 :: u8))"
    "32 \<le> length (replicate 32 (4 :: u8))" "64 \<le> length (replicate 32 (7 :: u8) @ replicate 32 3)"
    "4 \<le> length [5 :: u8, 0, 0, 1]" "66 \<le> length (replicate 127 (0 :: u8))"
    "handle_valid stub_prims (secret ?s) (replicate 32 3) (replicate 32 7 @ replicate 32 3)"
    by (simp_all add: prims_ok_stub stub_valid)
  have p: "[1 :: u8] ! 0 \<noteq> 0 \<longrightarrow> payload' ! 1 = 1"
    using p1 by simp
  from authenticate_signature [OF h r p] h r p1
  show ?thesis
    by (simp add: Let_def)
qed

lemma u2f_register_atomic:
  "u2f_register P M out appli_param s = Some (ret, out', s') \<Longrightarrow> ret \<noteq> 0 \<Longrightarrow> out' = out"
  unfolding u2f_register_def Let_def
  by (auto split: option.splits if_splits prod.splits)

lemma u2f_authenticate_atomic:
  "u2f_authenticate P M payload a c kh cu cn s = Some (ret, payload', s') \<Longrightarrow> ret \<noteq> 0 \<Longrightarrow>
     payload' = payload"
  unfolding u2f_authenticate_def Let_def
  by (auto split: option.splits if_splits prod.splits dest: authenticate_sign_atomic)

text \<open>
  C10. When \<open>u2f_register\<close> or \<open>u2f_authenticate\<close> returns a non-zero code, the buffer it
  was given is returned as it was; and the response that \<open>main\<close> then sends is the response
  buffer as it was at the start of the case (all zeros in \<open>main\<close>) with \<open>STATUS_BAD\<close> in
  byte 0 and the code in byte 1.
\<close>

theorem error_atomicity:
  assumes "ret \<noteq> 0"
  shows "(u2f_register P M out appli_param s = Some (ret, out', s') \<longrightarrow> out' = out) \<and>
    (u2f_authenticate P M payload appli_param chall_param keyhandle check_user counter s =
       Some (ret, payload', s') \<longrightarrow> payload' = payload) \<and>
    (hdr_len hdr = 128 \<and> u2f_register P M out (drop 1 cmd) (device a) = Some (ret, out', s') \<longrightarrow>
       cmd_u2f_register P M hdr cmd rsp out a =
         Some (appreply hdr APP_RSP_U2F_REGISTER (rsp[0 := STATUS_BAD, 1 := word_of_int ret])
                 (a\<lparr>device := s'\<lparr>led := LED_BLACK\<rparr>\<rparr>))) \<and>
    (hdr_len hdr = 128 \<and> d = memcpy (data a) (32 + 32) cmd 1 (64 + 1 + 4) \<and>
     u2f_authenticate P M (drop 1 rsp) d (drop 32 d) (drop 64 d) (drop 128 d) (drop 129 d) (device a) =
       Some (ret, payload', s') \<longrightarrow>
       cmd_u2f_authenticate_go P M hdr cmd rsp a =
         Some (appreply hdr APP_RSP_U2F_AUTHENTICATE (rsp[0 := STATUS_BAD, 1 := word_of_int ret])
                 (a\<lparr>data := d, device := s'\<lparr>led := LED_BLACK\<rparr>\<rparr>)))"
proof (intro conjI impI)
  assume "u2f_register P M out appli_param s = Some (ret, out', s')"
  then show "out' = out"
    using assms by (rule u2f_register_atomic)
next
  assume "u2f_authenticate P M payload appli_param chall_param keyhandle check_user counter s =
       Some (ret, payload', s')"
  then show "payload' = payload"
    using assms by (rule u2f_authenticate_atomic)
next
  assume a: "hdr_len hdr = 128 \<and> u2f_register P M out (drop 1 cmd) (device a) = Some (ret, out', s')"
  then show "cmd_u2f_register P M hdr cmd rsp out a =
         Some (appreply hdr APP_RSP_U2F_REGISTER (rsp[0 := STATUS_BAD, 1 := word_of_int ret])
                 (a\<lparr>device := s'\<lparr>led := LED_BLACK\<rparr>\<rparr>))"
    using assms by (simp add: cmd_u2f_register_def)
next
  assume a: "hdr_len hdr = 128 \<and> d = memcpy (data a) (32 + 32) cmd 1 (64 + 1 + 4) \<and>
     u2f_authenticate P M (drop 1 rsp) d (drop 32 d) (drop 64 d) (drop 128 d) (drop 129 d) (device a) =
       Some (ret, payload', s')"
  then have "payload' = drop 1 rsp"
    using assms u2f_authenticate_atomic by blast
  with a show "cmd_u2f_authenticate_go P M hdr cmd rsp a =
         Some (appreply hdr APP_RSP_U2F_AUTHENTICATE (rsp[0 := STATUS_BAD, 1 := word_of_int ret])
                 (a\<lparr>data := d, device := s'\<lparr>led := LED_BLACK\<rparr>\<rparr>))"
    using assms by (clarsimp simp: cmd_u2f_authenticate_go_def Let_def)
qed

lemma staged_go:
  "memcpy staged (32 + 32) (go_cmd x cu c) 1 (64 + 1 + 4) =
     replicate 32 3 @ replicate 32 4 @ replicate 32 7 @ replicate 32 x @ [cu] @ [c, 0, 0, 1]"
  by (simp add: memcpy_def staged_def go_cmd_def)

theorem error_atomicity_witness:
  "(- 1 :: int) \<noteq> 0 \<and>
   (\<exists>out' s'.
      u2f_register stub_prims tk1 (replicate 129 9) (replicate 32 0) (dev0 [idle_now, touch_now] []) =
        Some (- 1, out', s') \<and> out' = replicate 129 9) \<and>
   (\<exists>payload' s'.
      u2f_authenticate stub_prims tk1 (replicate 127 0) (replicate 32 3) (replicate 32 4)
        (replicate 32 7 @ replicate 32 3) [1] [0, 0, 0, 1] (dev0 [idle_now, touch_now] []) =
        Some (- 1, payload', s') \<and> payload' = replicate 127 0) \<and>
   (\<exists>out' s'. hdr_len (hdr0 128) = 128 \<and>
      u2f_register stub_prims tk1 (replicate 129 9) (drop 1 (reg_cmd 0))
        (device (app0 staged (dev0 [idle_now, touch_now] []))) = Some (- 1, out', s') \<and>
      cmd_u2f_register stub_prims tk1 (hdr0 128) (reg_cmd 0) (replicate 128 0) (replicate 129 9)
        (app0 staged (dev0 [idle_now, touch_now] [])) =
      Some (appreply (hdr0 128) APP_RSP_U2F_REGISTER ((replicate 128 0)[0 := STATUS_BAD, 1 := word_of_int (- 1)])
              ((app0 staged (dev0 [idle_now, touch_now] []))\<lparr>device := s'\<lparr>led := LED_BLACK\<rparr>\<rparr>))) \<and>
   (\<exists>d payload' s'. d = memcpy (data (app0 staged (dev0 [idle_now, touch_now] []))) (32 + 32) (go_cmd 3 1 0) 1 (64 + 1 + 4) \<and>
      u2f_authenticate stub_prims tk1 (drop 1 (replicate 128 0)) d (drop 32 d) (drop 64 d) (drop 128 d)
        (drop 129 d) (device (app0 staged (dev0 [idle_now, touch_now] []))) = Some (- 1, payload', s') \<and>
      cmd_u2f_authenticate_go stub_prims tk1 (hdr0 128) (go_cmd 3 1 0) (replicate 128 0)
        (app0 staged (dev0 [idle_now, touch_now] [])) =
      Some (appreply (hdr0 128) APP_RSP_U2F_AUTHENTICATE
              ((replicate 128 0)[0 := STATUS_BAD, 1 := word_of_int (- 1)])
              ((app0 staged (dev0 [idle_now, touch_now] []))\<lparr>data := d, device := s'\<lparr>led := LED_BLACK\<rparr>\<rparr>)))"
proof -
  let ?s = "dev0 [idle_now, touch_now] []"
  let ?a = "app0 staged ?s"
  have n: "(- 1 :: int) \<noteq> 0" by simp
  have h: "hdr_len (hdr0 128) = 128" by (simp add: hdr0_def)
  obtain out' s' where
    r: "u2f_register stub_prims tk1 (replicate 129 9) (replicate 32 0) ?s = Some (- 1, out', s')"
    using register_stub_run [of "replicate 32 0" "replicate 129 9"] by auto
  obtain payload' t' where
    q: "u2f_authenticate stub_prims tk1 (replicate 127 0) (replicate 32 3) (replicate 32 4)
          (replicate 32 7 @ replicate 32 3) [1] [0, 0, 0, 1] ?s = Some (- 1, payload', t')"
    using authenticate_stub_run [of "replicate 32 3" "replicate 32 4" "replicate 32 7 @ replicate 32 3"
        "[0, 0, 0, 1]" "replicate 127 0" "[1]" "[idle_now, touch_now]" "[]"]
    by auto
  obtain out2 s2 where
    r2: "u2f_register stub_prims tk1 (replicate 129 9) (drop 1 (reg_cmd 0)) (device ?a) = Some (- 1, out2, s2)"
    using register_stub_run [of "drop 1 (reg_cmd 0)" "replicate 129 9"]
    by (auto simp: reg_cmd_def app0_def nth_append)
  define d where "d = memcpy (data ?a) (32 + 32) (go_cmd 3 1 0) 1 (64 + 1 + 4)"
  have d: "d = replicate 32 3 @ replicate 32 4 @ replicate 32 7 @ replicate 32 3 @ [1] @ [0, 0, 0, 1]"
    unfolding d_def using staged_go [of 3 1 0] by (simp add: app0_def)
  obtain payload2 t2 where
    q2: "u2f_authenticate stub_prims tk1 (drop 1 (replicate 128 0)) d (drop 32 d) (drop 64 d) (drop 128 d)
          (drop 129 d) (device ?a) = Some (- 1, payload2, t2)"
    using authenticate_stub_run [of d "drop 32 d" "drop 64 d" "drop 129 d" "drop 1 (replicate 128 0)"
        "drop 128 d" "[idle_now, touch_now]" "[]"]
    by (auto simp: d app0_def nth_append)
  from error_atomicity [OF n, where P = stub_prims and M = tk1 and out = "replicate 129 9"
      and appli_param = "replicate 32 0" and s = ?s and out' = out' and s' = s']
  have c1: "out' = replicate 129 9" using r by blast
  from error_atomicity [OF n, where P = stub_prims and M = tk1 and payload = "replicate 127 0"
      and appli_param = "replicate 32 3" and chall_param = "replicate 32 4"
      and keyhandle = "replicate 32 7 @ replicate 32 3" and check_user = "[1]"
      and counter = "[0, 0, 0, 1]" and s = ?s and payload' = payload' and s' = t']
  have c2: "payload' = replicate 127 0" using q by blast
  from error_atomicity [OF n, where P = stub_prims and M = tk1 and out = "replicate 129 9"
      and hdr = "hdr0 128" and cmd = "reg_cmd 0" and a = ?a and out' = out2 and s' = s2
      and rsp = "replicate 128 0"]
  have c3: "cmd_u2f_register stub_prims tk1 (hdr0 128) (reg_cmd 0) (replicate 128 0) (replicate 129 9) ?a =
      Some (appreply (hdr0 128) APP_RSP_U2F_REGISTER ((replicate 128 0)[0 := STATUS_BAD, 1 := word_of_int (- 1)])
              (?a\<lparr>device := s2\<lparr>led := LED_BLACK\<rparr>\<rparr>))"
    using h r2 by blast
  from error_atomicity [OF n, where P = stub_prims and M = tk1 and hdr = "hdr0 128"
      and cmd = "go_cmd 3 1 0" and a = ?a and d = d and payload' = payload2 and s' = t2
      and rsp = "replicate 128 0"]
  have c4: "cmd_u2f_authenticate_go stub_prims tk1 (hdr0 128) (go_cmd 3 1 0) (replicate 128 0) ?a =
      Some (appreply (hdr0 128) APP_RSP_U2F_AUTHENTICATE
              ((replicate 128 0)[0 := STATUS_BAD, 1 := word_of_int (- 1)])
              (?a\<lparr>data := d, device := t2\<lparr>led := LED_BLACK\<rparr>\<rparr>))"
    using h q2 d_def by blast
  show ?thesis
    using n h r c1 q c2 r2 c3 q2 c4 d_def by blast
qed

lemma event_bit:
  assumes "n < 32"
  shows "(x OR push_bit n (1 :: u32)) AND push_bit n 1 \<noteq> 0"
proof -
  define w where "w = (x OR push_bit n (1 :: u32)) AND push_bit n 1"
  have b: "bit w n"
    using assms by (simp add: w_def bit_simps)
  have "w \<noteq> 0"
  proof
    assume "w = 0"
    with b show False by simp
  qed
  then show ?thesis by (simp add: w_def)
qed

lemma sense_touch:
  assumes "TK1_MMIO_TOUCH_STATUS_EVENT_BIT M < 32"
    and "touch s AND push_bit (TK1_MMIO_TOUCH_STATUS_EVENT_BIT M) 1 = 0"
  shows "touch (sense M p s) AND push_bit (TK1_MMIO_TOUCH_STATUS_EVENT_BIT M) 1 \<noteq> 0 \<longleftrightarrow> touch_event p"
  using assms event_bit [of "TK1_MMIO_TOUCH_STATUS_EVENT_BIT M" "touch s"]
  by (simp add: sense_def)

lemma sense_polls: "sense M p (s\<lparr>touch_polls := ps\<rparr>) = (sense M p s)\<lparr>touch_polls := ps\<rparr>"
  by (simp add: sense_def)

lemma wait_loop_decides:
  "TK1_MMIO_TOUCH_STATUS_EVENT_BIT M < 32 \<Longrightarrow>
    touch s AND push_bit (TK1_MMIO_TOUCH_STATUS_EVENT_BIT M) 1 = 0 \<Longrightarrow>
    wait_loop M lv on i s = Some (t, s') \<Longrightarrow>
    \<exists>pre p. touch_polls s = pre @ p # touch_polls s' \<and>
      (\<forall>q\<in>set pre. timer_running M q \<and> \<not> touch_event q) \<and>
      (t = 1 \<and> timer_running M p \<and> touch_event p \<or> t = 0 \<and> \<not> timer_running M p)"
proof (induction M lv on i s rule: wait_loop.induct)
  case (1 M ledvalue led_on i s)
  note ebit = "1.prems"(1)
  note u = wait_loop.simps [of M ledvalue led_on i s]
  show ?case
  proof (cases "i < loopcount")
    case False
    with "1.prems"(3) have "wait_loop M ledvalue (\<not> led_on) 0
        (s\<lparr>led := (if \<not> led_on then ledvalue else LED_BLACK)\<rparr>) = Some (t, s')"
      unfolding u by simp
    with "1.IH"(2) [OF False ebit] "1.prems"(2) show ?thesis
      by simp
  next
    case True
    show ?thesis
    proof (cases "touch_polls s")
      case Nil
      with True "1.prems"(3) show ?thesis
        unfolding u by simp
    next
      case (Cons p ps)
      note st = sense_touch [OF ebit "1.prems"(2), of p]
      show ?thesis
      proof (cases "timer_running M p")
        case False
        with True Cons "1.prems"(3) have "t = 0" "touch_polls s' = ps"
          unfolding u by (auto simp: timer_running_def sense_frame)
        with False Cons show ?thesis
          by (intro exI [of _ "[]"] exI [of _ p]) simp
      next
        case run: True
        show ?thesis
        proof (cases "touch_event p")
          case True
          with \<open>i < loopcount\<close> run Cons "1.prems"(3) st have "t = 1" "touch_polls s' = ps"
            unfolding u by (auto simp: timer_running_def sense_frame sense_polls)
          with True run Cons show ?thesis
            by (intro exI [of _ "[]"] exI [of _ p]) simp
        next
          case False
          let ?s1 = "sense M p (s\<lparr>touch_polls := ps\<rparr>)"
          have c: "touch ?s1 AND push_bit (TK1_MMIO_TOUCH_STATUS_EVENT_BIT M) 1 = 0"
            using False "1.prems"(2) by (simp add: sense_def)
          have r: "wait_loop M ledvalue led_on (i + 1) ?s1 = Some (t, s')"
            using \<open>i < loopcount\<close> run Cons "1.prems"(3) st False
            unfolding u by (simp add: timer_running_def)
          have rn: "timer_status p AND push_bit (TK1_MMIO_TIMER_STATUS_RUNNING_BIT M) 1 \<noteq> 0"
            using run by (simp add: timer_running_def)
          have nt: "\<not> touch (sense M p s) AND push_bit (TK1_MMIO_TOUCH_STATUS_EVENT_BIT M) 1 \<noteq> 0"
            using st False by simp
          from "1.IH"(1) [OF \<open>i < loopcount\<close> Cons _ _ ebit c r] rn nt
          obtain pre q where "touch_polls ?s1 = pre @ q # touch_polls s'"
            and "\<forall>x\<in>set pre. timer_running M x \<and> \<not> touch_event x"
            and "t = 1 \<and> timer_running M q \<and> touch_event q \<or> t = 0 \<and> \<not> timer_running M q"
            by auto
          with Cons run False show ?thesis
            by (intro exI [of _ "p # pre"] exI [of _ q]) (simp add: sense_frame)
        qed
      qed
    qed
  qed
qed

lemma wait_loop_total:
  "TK1_MMIO_TOUCH_STATUS_EVENT_BIT M < 32 \<Longrightarrow>
   \<exists>p\<in>set (touch_polls s). \<not> timer_running M p \<or> touch_event p \<Longrightarrow>
   \<exists>r. wait_loop M lv on i s = Some r"
proof (induction M lv on i s rule: wait_loop.induct)
  case (1 M ledvalue led_on i s)
  note u = wait_loop.simps [of M ledvalue led_on i s]
  show ?case
  proof (cases "i < loopcount")
    case False
    with "1.IH"(2) [OF False "1.prems"(1)] "1.prems"(2) show ?thesis
      unfolding u by simp
  next
    case True
    from "1.prems"(2) obtain p ps where Cons: "touch_polls s = p # ps"
      by (cases "touch_polls s") auto
    show ?thesis
    proof (cases "timer_running M p \<and> touch (sense M p s) AND push_bit (TK1_MMIO_TOUCH_STATUS_EVENT_BIT M) 1 = 0")
      case False
      with True Cons show ?thesis
        unfolding u by (auto simp: timer_running_def)
    next
      case go: True
      have "\<not> touch_event p"
      proof
        assume "touch_event p"
        with event_bit [OF "1.prems"(1), of "touch s"] go show False
          by (simp add: sense_def)
      qed
      with go "1.prems"(2) Cons
      have ex: "\<exists>q\<in>set (touch_polls (sense M p (s\<lparr>touch_polls := ps\<rparr>))). \<not> timer_running M q \<or> touch_event q"
        by (auto simp: sense_frame)
      have rn: "timer_status p AND push_bit (TK1_MMIO_TIMER_STATUS_RUNNING_BIT M) 1 \<noteq> 0"
        using go by (simp add: timer_running_def)
      have nt: "\<not> touch (sense M p s) AND push_bit (TK1_MMIO_TOUCH_STATUS_EVENT_BIT M) 1 \<noteq> 0"
        using go by simp
      from "1.IH"(1) [OF True Cons rn nt "1.prems"(1) ex] True Cons rn nt
      show ?thesis
        unfolding u by simp
    qed
  qed
qed

text \<open>
  C9. \<open>wait_touched\<close> gives the same result whatever the touch status register holds when it
  is called: the register is cleared before the first poll. When it returns, the polls it
  consumed are a run of polls at which the timer was running and the sensor raised no
  event, followed by one deciding poll: the result is 1 exactly when the sensor raised a
  touch event at that poll with the timer still running, and 0 exactly when the timer was
  found expired there. And it does return once the environment offers such a poll.
\<close>

theorem touch_pre_clear:
  assumes "TK1_MMIO_TOUCH_STATUS_EVENT_BIT M < 32"
  shows "wait_touched M ledvalue (s\<lparr>touch := v\<rparr>) = wait_touched M ledvalue s \<and>
    (\<forall>touched s'. wait_touched M ledvalue s = Some (touched, s') \<longrightarrow>
       (\<exists>pre p. touch_polls s = pre @ p # touch_polls s' \<and>
          (\<forall>q\<in>set pre. timer_running M q \<and> \<not> touch_event q) \<and>
          (touched = 1 \<and> timer_running M p \<and> touch_event p \<or>
           touched = 0 \<and> \<not> timer_running M p))) \<and>
    ((\<exists>p\<in>set (touch_polls s). \<not> timer_running M p \<or> touch_event p) \<longrightarrow>
       wait_touched M ledvalue s \<noteq> None)"
proof (intro conjI allI impI)
  show "wait_touched M ledvalue (s\<lparr>touch := v\<rparr>) = wait_touched M ledvalue s"
    by (simp add: wait_touched_def)
next
  fix touched s'
  let ?s0 = "s\<lparr>timer_prescaler := TKEY_HZ, timer := U2F_TOUCH_TIMEOUT_SECS,
               timer_ctrl := push_bit (TK1_MMIO_TIMER_CTRL_START_BIT M) 1, touch := 0, led := LED_BLACK\<rparr>"
  assume a: "wait_touched M ledvalue s = Some (touched, s')"
  have wt: "wait_touched M ledvalue s =
      (case wait_loop M ledvalue False 0 ?s0 of
         None \<Rightarrow> None
       | Some (touched, s1) \<Rightarrow> Some (touched, s1\<lparr>led := LED_BLACK\<rparr>))"
    by (simp add: wait_touched_def)
  from a obtain s1 where w: "wait_loop M ledvalue False 0 ?s0 = Some (touched, s1)"
    and s': "s' = s1\<lparr>led := LED_BLACK\<rparr>"
    unfolding wt by (cases "wait_loop M ledvalue False 0 ?s0") auto
  have "touch ?s0 AND push_bit (TK1_MMIO_TOUCH_STATUS_EVENT_BIT M) 1 = 0"
    by simp
  from wait_loop_decides [OF assms this w] s'
  show "\<exists>pre p. touch_polls s = pre @ p # touch_polls s' \<and>
          (\<forall>q\<in>set pre. timer_running M q \<and> \<not> touch_event q) \<and>
          (touched = 1 \<and> timer_running M p \<and> touch_event p \<or>
           touched = 0 \<and> \<not> timer_running M p)"
    by simp
next
  let ?s0 = "s\<lparr>timer_prescaler := TKEY_HZ, timer := U2F_TOUCH_TIMEOUT_SECS,
               timer_ctrl := push_bit (TK1_MMIO_TIMER_CTRL_START_BIT M) 1, touch := 0, led := LED_BLACK\<rparr>"
  assume "\<exists>p\<in>set (touch_polls s). \<not> timer_running M p \<or> touch_event p"
  then have "\<exists>p\<in>set (touch_polls ?s0). \<not> timer_running M p \<or> touch_event p"
    by simp
  have wt: "wait_touched M ledvalue s =
      (case wait_loop M ledvalue False 0 ?s0 of
         None \<Rightarrow> None
       | Some (touched, s1) \<Rightarrow> Some (touched, s1\<lparr>led := LED_BLACK\<rparr>))"
    by (simp add: wait_touched_def)
  from wait_loop_total [OF assms \<open>\<exists>p\<in>set (touch_polls ?s0). \<not> timer_running M p \<or> touch_event p\<close>,
      of ledvalue False 0]
  show "wait_touched M ledvalue s \<noteq> None"
    unfolding wt by auto
qed

theorem touch_pre_clear_witness:
  "TK1_MMIO_TOUCH_STATUS_EVENT_BIT tk1 < 32 \<and>
   wait_touched tk1 1 ((dev0 [idle_now, timeout_now, touch_now] [])\<lparr>touch := 1\<rparr>) =
     wait_touched tk1 1 (dev0 [idle_now, timeout_now, touch_now] []) \<and>
   wait_touched tk1 1 (dev0 [idle_now, timeout_now, touch_now] []) =
     Some (0, (dev0 [touch_now] [])\<lparr>timer_ctrl := 1, timer_prescaler := 18000000, timer := 10\<rparr>) \<and>
   (\<exists>pre p. touch_polls (dev0 [idle_now, timeout_now, touch_now] []) =
       pre @ p # touch_polls ((dev0 [touch_now] [])\<lparr>timer_ctrl := 1, timer_prescaler := 18000000, timer := 10\<rparr>) \<and>
       (\<forall>q\<in>set pre. timer_running tk1 q \<and> \<not> touch_event q) \<and>
       ((0 :: int) = 1 \<and> timer_running tk1 p \<and> touch_event p \<or>
        (0 :: int) = 0 \<and> \<not> timer_running tk1 p)) \<and>
   (\<exists>p\<in>set (touch_polls (dev0 [idle_now, timeout_now, touch_now] [])).
       \<not> timer_running tk1 p \<or> touch_event p) \<and>
   wait_touched tk1 1 (dev0 [idle_now, timeout_now, touch_now] []) \<noteq> None"
proof -
  let ?s = "dev0 [idle_now, timeout_now, touch_now] []"
  have b: "TK1_MMIO_TOUCH_STATUS_EVENT_BIT tk1 < 32"
    by (simp add: tk1_def)
  have w: "wait_touched tk1 1 ?s =
      Some (0, (dev0 [touch_now] [])\<lparr>timer_ctrl := 1, timer_prescaler := 18000000, timer := 10\<rparr>)"
    by (simp add: touch_eval LED_BLACK_def TKEY_HZ_def U2F_TOUCH_TIMEOUT_SECS_def)
  have e: "\<exists>p\<in>set (touch_polls ?s). \<not> timer_running tk1 p \<or> touch_event p"
    by (simp add: dev0_def touch_now_def)
  note t = touch_pre_clear [OF b, where ledvalue = 1 and s = ?s and v = 1]
  from t have "wait_touched tk1 1 (?s\<lparr>touch := 1\<rparr>) = wait_touched tk1 1 ?s" by blast
  moreover from t w have "\<exists>pre p. touch_polls ?s =
       pre @ p # touch_polls ((dev0 [touch_now] [])\<lparr>timer_ctrl := 1, timer_prescaler := 18000000, timer := 10\<rparr>) \<and>
       (\<forall>q\<in>set pre. timer_running tk1 q \<and> \<not> touch_event q) \<and>
       ((0 :: int) = 1 \<and> timer_running tk1 p \<and> touch_event p \<or>
        (0 :: int) = 0 \<and> \<not> timer_running tk1 p)" by blast
  moreover from t e have "wait_touched tk1 1 ?s \<noteq> None" by blast
  ultimately show ?thesis
    using b w e by blast
qed

section \<open>The dispatcher\<close>

lemmas opcodes = APP_CMD_GET_NAMEVERSION_def APP_RSP_GET_NAMEVERSION_def APP_CMD_U2F_REGISTER_def
  APP_RSP_U2F_REGISTER_def APP_CMD_U2F_CHECKONLY_def APP_RSP_U2F_CHECKONLY_def
  APP_CMD_U2F_AUTHENTICATE_SET_def APP_CMD_U2F_AUTHENTICATE_GO_def APP_RSP_U2F_AUTHENTICATE_def
  APP_RSP_UNKNOWN_CMD_def

lemma cmd_head:
  assumes "0 < hdr_len hdr" "body \<noteq> []"
  shows "memcpy (replicate CMDLEN_MAXBYTES 0) 0 body 0 (hdr_len hdr) ! 0 = body ! 0"
  using assms by (cases body) (auto simp: memcpy_def nth_append)

lemma replicate_upd0: "0 < n \<Longrightarrow> (replicate n x)[0 := y] = y # replicate (n - 1) x"
  by (cases n) simp_all

lemma timeout_run:
  "wait_touched tk1 lv ((dev0 [timeout_now] rps)\<lparr>led := x\<rparr>) =
     Some (0, (dev0 [] rps)\<lparr>timer_ctrl := 1, timer_prescaler := 18000000, timer := 10\<rparr>)"
  by (simp add: touch_eval LED_BLACK_def TKEY_HZ_def U2F_TOUCH_TIMEOUT_SECS_def)

text \<open>
  C5, as amended. For a Register command of length 128 whose touch gate returns 0, \<open>main\<close>
  sends two response frames with opcode \<open>APP_RSP_U2F_REGISTER\<close>, as for every Register that
  returns 0: the first starts with \<open>STATUS_OK\<close> and the presence byte 0, the second starts
  with \<open>STATUS_OK\<close>. No nonce is drawn and no key material is derived: the DRBG counter
  and state, the TRNG and the log of primitive calls are as before the command.
\<close>

theorem register_timeout:
  assumes "hdr_endpoint hdr = DST_SW" "hdr_len hdr = 128" "body \<noteq> []"
    and "body ! 0 = APP_CMD_U2F_REGISTER" "length out = 129"
    and "wait_touched M (U2F_REGISTER_LEDVALUE M) ((device a)\<lparr>led := APP_LEDVALUE M\<rparr>) = Some (0, s1)"
  shows "\<exists>r1 r2. main_frame P M hdr body out a =
           Some (a\<lparr>device := s1\<lparr>led := LED_BLACK\<rparr>,
                   replies := replies a @ [Appreply hdr APP_RSP_U2F_REGISTER r1,
                                           Appreply hdr APP_RSP_U2F_REGISTER r2]\<rparr>) \<and>
         take 2 r1 = [STATUS_OK, 0] \<and> r2 ! 0 = STATUS_OK \<and>
         ctr s1 = ctr (device a) \<and> state s1 = state (device a) \<and>
         trng_polls s1 = trng_polls (device a) \<and> calls s1 = calls (device a)"
proof -
  let ?cmd = "memcpy (replicate CMDLEN_MAXBYTES 0) 0 body 0 (hdr_len hdr)"
  let ?rsp = "replicate CMDLEN_MAXBYTES (0 :: u8)"
  let ?out = "out[0 := 0]"
  let ?r1 = "memcpy (?rsp[0 := STATUS_OK]) 1 ?out 0 (1 + 64)"
  let ?r2 = "memcpy (?r1[0 := STATUS_OK]) 1 ?out (1 + 64) 64"
  have o: "?cmd ! 0 = APP_CMD_U2F_REGISTER"
    using cmd_head [of hdr body] assms(2,3,4) by simp
  obtain x rest where out: "out = x # rest"
    using assms(5) by (cases out) auto
  have f: "take 2 ?r1 = [STATUS_OK, 0]"
    by (simp add: memcpy_def out CMDLEN_MAXBYTES_def replicate_upd0)
  have l: "0 < length (?r1[0 := STATUS_OK])"
    using assms(5) by (simp add: memcpy_def CMDLEN_MAXBYTES_def)
  have g: "?r2 ! 0 = STATUS_OK"
    using l by (simp add: memcpy_def nth_append CMDLEN_MAXBYTES_def)
  have m: "main_frame P M hdr body out a =
      Some (a\<lparr>device := s1\<lparr>led := LED_BLACK\<rparr>,
              replies := replies a @ [Appreply hdr APP_RSP_U2F_REGISTER ?r1,
                                      Appreply hdr APP_RSP_U2F_REGISTER ?r2]\<rparr>)"
    unfolding main_frame_def Let_def o
    using assms(1,2,6)
    by (simp add: opcodes cmd_u2f_register_def u2f_register_def Let_def appreply_def)
  from wait_touched_frame [OF assms(6)] m f g show ?thesis
    by (intro exI [of _ ?r1] exI [of _ ?r2]) simp
qed

theorem register_timeout_witness:
  "hdr_endpoint (hdr0 128) = DST_SW \<and> hdr_len (hdr0 128) = 128 \<and> reg_cmd 3 \<noteq> [] \<and>
   reg_cmd 3 ! 0 = APP_CMD_U2F_REGISTER \<and> length (replicate 129 (9 :: u8)) = 129 \<and>
   wait_touched tk1 (U2F_REGISTER_LEDVALUE tk1)
     ((device (app0 staged (dev0 [timeout_now] [])))\<lparr>led := APP_LEDVALUE tk1\<rparr>) =
     Some (0, (dev0 [] [])\<lparr>timer_ctrl := 1, timer_prescaler := 18000000, timer := 10\<rparr>) \<and>
   (\<exists>r1 r2. main_frame stub_prims tk1 (hdr0 128) (reg_cmd 3) (replicate 129 9)
                (app0 staged (dev0 [timeout_now] [])) =
           Some ((app0 staged (dev0 [timeout_now] []))
                   \<lparr>device := ((dev0 [] [])\<lparr>timer_ctrl := 1, timer_prescaler := 18000000, timer := 10\<rparr>)
                                \<lparr>led := LED_BLACK\<rparr>,
                    replies := replies (app0 staged (dev0 [timeout_now] [])) @
                      [Appreply (hdr0 128) APP_RSP_U2F_REGISTER r1,
                       Appreply (hdr0 128) APP_RSP_U2F_REGISTER r2]\<rparr>) \<and>
         take 2 r1 = [STATUS_OK, 0] \<and> r2 ! 0 = STATUS_OK)"
proof -
  have h: "hdr_endpoint (hdr0 128) = DST_SW" "hdr_len (hdr0 128) = 128" "reg_cmd 3 \<noteq> []"
    "reg_cmd 3 ! 0 = APP_CMD_U2F_REGISTER" "length (replicate 129 (9 :: u8)) = 129"
    by (simp_all add: hdr0_def reg_cmd_def)
  have w: "wait_touched tk1 (U2F_REGISTER_LEDVALUE tk1)
     ((device (app0 staged (dev0 [timeout_now] [])))\<lparr>led := APP_LEDVALUE tk1\<rparr>) =
     Some (0, (dev0 [] [])\<lparr>timer_ctrl := 1, timer_prescaler := 18000000, timer := 10\<rparr>)"
    by (simp add: app0_def timeout_run)
  from register_timeout [OF h w, of stub_prims] h w
  show ?thesis by blast
qed

text \<open>
  C5, as stated, fails: a Register that times out is answered with two frames, and beyond
  the status and presence bytes they carry what the uninitialised \<open>output\<close> buffer held
  (here bytes 9).
\<close>

theorem register_timeout_two_frames:
  "map_option replies
     (main_frame stub_prims tk1 (hdr0 128) (reg_cmd 3) (replicate 129 9) (app0 staged (dev0 [timeout_now] []))) =
   Some [Appreply (hdr0 128) APP_RSP_U2F_REGISTER ([0, 0] @ replicate 64 9 @ replicate 62 0),
         Appreply (hdr0 128) APP_RSP_U2F_REGISTER ([0] @ replicate 64 9 @ [9] @ replicate 62 0)]"
proof -
  have c: "memcpy (replicate CMDLEN_MAXBYTES 0) 0 (reg_cmd 3) 0 (hdr_len (hdr0 128)) = reg_cmd 3"
    by (simp add: memcpy_def reg_cmd_def hdr0_def CMDLEN_MAXBYTES_def)
  have o: "reg_cmd 3 ! 0 = APP_CMD_U2F_REGISTER"
    by (simp add: reg_cmd_def)
  show ?thesis
    unfolding main_frame_def Let_def c o
    apply (simp add: hdr0_def opcodes cmd_u2f_register_def app0_def u2f_register_def timeout_run
        U2F_REGISTER_LEDVALUE_def Let_def appreply_def)
    apply (simp add: memcpy_def replicate_upd0 CMDLEN_MAXBYTES_def STATUS_OK_def)
    done
qed

text \<open>
  C6, as amended. For a frame to the application whose first byte is one of the opcodes
  REGISTER, CHECKONLY, AUTH_SET, AUTH_GO and whose length is not 128, \<open>main\<close> sends one
  response, the zeroed buffer with \<open>STATUS_BAD\<close> in byte 0, and does nothing else (the
  staging buffer and the device are as before, but for the LED write at the top of the
  loop). For NAMEVERSION with a length other than 1 the one response is the zeroed buffer
  itself, under opcode \<open>APP_RSP_GET_NAMEVERSION\<close>, without name and version.
\<close>

theorem bad_length:
  assumes "hdr_endpoint hdr = DST_SW" "0 < hdr_len hdr" "body \<noteq> []"
  shows "(body ! 0 \<in> {APP_CMD_U2F_REGISTER, APP_CMD_U2F_CHECKONLY, APP_CMD_U2F_AUTHENTICATE_SET,
                      APP_CMD_U2F_AUTHENTICATE_GO} \<and> hdr_len hdr \<noteq> 128 \<longrightarrow>
          main_frame P M hdr body out a =
            Some (a\<lparr>device := (device a)\<lparr>led := APP_LEDVALUE M\<rparr>,
                    replies := replies a @
                      [Appreply hdr (response_opcode (body ! 0))
                         ((replicate CMDLEN_MAXBYTES 0)[0 := STATUS_BAD])]\<rparr>)) \<and>
         (body ! 0 = APP_CMD_GET_NAMEVERSION \<and> hdr_len hdr \<noteq> 1 \<longrightarrow>
          main_frame P M hdr body out a =
            Some (a\<lparr>device := (device a)\<lparr>led := APP_LEDVALUE M\<rparr>,
                    replies := replies a @
                      [Appreply hdr APP_RSP_GET_NAMEVERSION (replicate CMDLEN_MAXBYTES 0)]\<rparr>))"
proof -
  have o: "memcpy (replicate CMDLEN_MAXBYTES 0) 0 body 0 (hdr_len hdr) ! 0 = body ! 0"
    using cmd_head [of hdr body] assms(2,3) by simp
  show ?thesis
    unfolding main_frame_def Let_def o
    using assms(1)
    by (auto simp: opcodes response_opcode_def cmd_u2f_register_def cmd_u2f_checkonly_def
        cmd_u2f_authenticate_set_def cmd_u2f_authenticate_go_def cmd_get_nameversion_def
        appreply_def Let_def)
qed

theorem bad_length_witness:
  "hdr_endpoint (hdr0 4) = DST_SW \<and> 0 < hdr_len (hdr0 4) \<and> take 4 (reg_cmd 3) \<noteq> [] \<and>
   take 4 (reg_cmd 3) ! 0 \<in> {APP_CMD_U2F_REGISTER, APP_CMD_U2F_CHECKONLY, APP_CMD_U2F_AUTHENTICATE_SET,
                      APP_CMD_U2F_AUTHENTICATE_GO} \<and> hdr_len (hdr0 4) \<noteq> 128 \<and>
   main_frame stub_prims tk1 (hdr0 4) (take 4 (reg_cmd 3)) (replicate 129 9) (app0 staged (dev0 [touch_now] [])) =
     Some ((app0 staged (dev0 [touch_now] []))
             \<lparr>device := (device (app0 staged (dev0 [touch_now] [])))\<lparr>led := APP_LEDVALUE tk1\<rparr>,
              replies := replies (app0 staged (dev0 [touch_now] [])) @
                [Appreply (hdr0 4) (response_opcode (take 4 (reg_cmd 3) ! 0))
                   ((replicate CMDLEN_MAXBYTES 0)[0 := STATUS_BAD])]\<rparr>) \<and>
   [APP_CMD_GET_NAMEVERSION, 0, 0, 0] \<noteq> [] \<and>
   [APP_CMD_GET_NAMEVERSION, 0, 0, 0] ! 0 = APP_CMD_GET_NAMEVERSION \<and> hdr_len (hdr0 4) \<noteq> 1 \<and>
   main_frame stub_prims tk1 (hdr0 4) [APP_CMD_GET_NAMEVERSION, 0, 0, 0] (replicate 129 9)
       (app0 staged (dev0 [touch_now] [])) =
     Some ((app0 staged (dev0 [touch_now] []))
             \<lparr>device := (device (app0 staged (dev0 [touch_now] [])))\<lparr>led := APP_LEDVALUE tk1\<rparr>,
              replies := replies (app0 staged (dev0 [touch_now] [])) @
                [Appreply (hdr0 4) APP_RSP_GET_NAMEVERSION (replicate CMDLEN_MAXBYTES 0)]\<rparr>)"
proof -
  have h: "hdr_endpoint (hdr0 4) = DST_SW" "0 < hdr_len (hdr0 4)"
    by (simp_all add: hdr0_def)
  have r: "take 4 (reg_cmd 3) \<noteq> []"
    "take 4 (reg_cmd 3) ! 0 \<in> {APP_CMD_U2F_REGISTER, APP_CMD_U2F_CHECKONLY, APP_CMD_U2F_AUTHENTICATE_SET,
                      APP_CMD_U2F_AUTHENTICATE_GO} \<and> hdr_len (hdr0 4) \<noteq> 128"
    by (simp_all add: reg_cmd_def hdr0_def)
  have n: "[APP_CMD_GET_NAMEVERSION, 0, 0, 0] \<noteq> []"
    "[APP_CMD_GET_NAMEVERSION, 0, 0, 0] ! 0 = APP_CMD_GET_NAMEVERSION \<and> hdr_len (hdr0 4) \<noteq> 1"
    by (simp_all add: hdr0_def)
  from bad_length [OF h r(1), of stub_prims tk1 "replicate 129 9" "app0 staged (dev0 [touch_now] [])"]
    bad_length [OF h n(1), of stub_prims tk1 "replicate 129 9" "app0 staged (dev0 [touch_now] [])"]
    h r n
  show ?thesis by blast
qed

text \<open>
  C6, as stated, fails for NAMEVERSION: with a length of 4 the response buffer is all
  zeros, so its first byte is \<open>STATUS_OK\<close>, not \<open>STATUS_BAD\<close>.
\<close>

theorem nameversion_bad_length_not_status_bad:
  "map_option replies
     (main_frame stub_prims tk1 (hdr0 4) [APP_CMD_GET_NAMEVERSION, 0, 0, 0] (replicate 129 9)
        (app0 staged (dev0 [touch_now] []))) =
   Some [Appreply (hdr0 4) APP_RSP_GET_NAMEVERSION (replicate 128 0)] \<and>
   replicate 128 0 ! 0 \<noteq> STATUS_BAD"
  by (simp add: main_frame_def Let_def memcpy_def hdr0_def opcodes cmd_get_nameversion_def
      appreply_def app0_def CMDLEN_MAXBYTES_def STATUS_BAD_def)

lemma authenticate_stub_nocheck:
  assumes l: "32 \<le> length app" "32 \<le> length chall" "64 \<le> length kh" "4 \<le> length counter"
      "66 \<le> length payload"
    and v: "take 32 (drop 32 kh) = replicate 32 (app ! 0)"
    and t: "cu ! 0 = 0" and c: "counter ! 0 \<noteq> 0"
  shows "\<exists>cs. u2f_authenticate stub_prims tk1 payload app chall kh cu counter s =
      Some (0, [1, 0] @ replicate 64 (app ! 0 + counter ! 0) @ drop 66 payload,
            s\<lparr>led := 2, calls := calls s @ cs @
               [Call_p256_ecdsa_sign (replicate 32 (app ! 0)) (replicate 32 (counter ! 0)) 32]\<rparr>)"
proof -
  have valid: "handle_valid stub_prims S app kh" for S
    using l(1) v by (simp add: handle_valid_def stub_MAC)
  have led: "U2F_AUTHENTICATE_LEDVALUE tk1 = 2"
    by (simp add: U2F_AUTHENTICATE_LEDVALUE_def LED_GREEN_def tk1_def)
  have m: "(take 32 app @ up # take 4 counter @ take 32 chall) ! 33 = counter ! 0" for up
    using l by (simp add: nth_append)
  let ?key = "take 32 (words_bytes (secret s))"
  let ?cs = "[Call_blake2s 32 ?key (take 32 app @ take 32 kh),
              Call_blake2s 32 ?key (take 32 app @ replicate 32 (app ! 0)),
              Call_calc_sha_256 (take 32 app @ [0] @ take 4 counter @ take 32 chall) 69]"
  have "u2f_authenticate stub_prims tk1 payload app chall kh cu counter s =
      Some (0, [1, 0] @ replicate 64 (app ! 0 + counter ! 0) @ drop 66 payload,
            s\<lparr>led := 2, calls := calls s @ ?cs @
               [Call_p256_ecdsa_sign (replicate 32 (app ! 0)) (replicate 32 (counter ! 0)) 32]\<rparr>)"
    unfolding authenticate_head [OF prims_ok_stub l(1,3)] Let_def
    using t c l(1)
    by (simp add: valid stub_MAC authenticate_sign_eq [OF prims_ok_stub l(1,2,4,5)]
        Let_def stub_sha stub_sign m led)
  then show ?thesis by blast
qed

lemma main_frame_go:
  assumes "hdr_endpoint hdr = DST_SW"
    and "memcpy (replicate CMDLEN_MAXBYTES 0) 0 body 0 (hdr_len hdr) = cmd"
    and "cmd ! 0 = APP_CMD_U2F_AUTHENTICATE_GO"
  shows "main_frame P M hdr body out a =
    cmd_u2f_authenticate_go P M hdr cmd (replicate CMDLEN_MAXBYTES 0)
      (a\<lparr>device := (device a)\<lparr>led := APP_LEDVALUE M\<rparr>\<rparr>)"
  unfolding main_frame_def Let_def assms(2)
  using assms(1,3) by (simp add: opcodes)

lemma authenticate_go_ok:
  assumes "hdr_len hdr = 128" "d = memcpy (data a) (32 + 32) cmd 1 (64 + 1 + 4)"
    and "u2f_authenticate P M (drop 1 rsp) d (drop 32 d) (drop 64 d) (drop 128 d) (drop 129 d) (device a) =
       Some (0, payload', s')"
  shows "cmd_u2f_authenticate_go P M hdr cmd rsp a =
    Some (appreply hdr APP_RSP_U2F_AUTHENTICATE ((take 1 rsp @ payload')[0 := STATUS_OK])
            (a\<lparr>data := d, device := s'\<lparr>led := LED_BLACK\<rparr>\<rparr>))"
  using assms by (clarsimp simp: cmd_u2f_authenticate_go_def Let_def)

text \<open>
  C2 fails on the code: \<open>main\<close> keeps no record of an Authenticate-SET, so an
  Authenticate-GO of length 128 always runs \<open>u2f_authenticate\<close> on the staging buffer.
  Here a session starts with the staging buffer all zeros and receives a GO with
  \<open>check_user = 0\<close> and a key handle valid for an application parameter of zeros: the
  reply has \<open>STATUS_OK\<close>, valid 1, presence 0 and a signature, and the log of the device
  ends with the call of the signature primitive.
\<close>

theorem authenticate_go_without_set:
  "map_option replies
     (main_frame stub_prims tk1 (hdr0 128) (go_cmd 0 0 1) (replicate 129 9)
        (app0 (replicate 133 0) (dev0 [] []))) =
   Some [Appreply (hdr0 128) APP_RSP_U2F_AUTHENTICATE
           ([STATUS_OK, 1, 0] @ replicate 64 1 @ replicate 61 0)] \<and>
   map_option (last \<circ> calls \<circ> device)
     (main_frame stub_prims tk1 (hdr0 128) (go_cmd 0 0 1) (replicate 129 9)
        (app0 (replicate 133 0) (dev0 [] []))) =
   Some (Call_p256_ecdsa_sign (replicate 32 0) (replicate 32 1) 32)"
proof -
  let ?a = "app0 (replicate 133 0) (dev0 [] [])"
  let ?a1 = "?a\<lparr>device := (device ?a)\<lparr>led := APP_LEDVALUE tk1\<rparr>\<rparr>"
  let ?rsp = "replicate CMDLEN_MAXBYTES (0 :: u8)"
  have h: "hdr_endpoint (hdr0 128) = DST_SW" "hdr_len (hdr0 128) = 128"
    by (simp_all add: hdr0_def)
  have c: "memcpy (replicate CMDLEN_MAXBYTES 0) 0 (go_cmd 0 0 1) 0 (hdr_len (hdr0 128)) = go_cmd 0 0 1"
    by (simp add: memcpy_def go_cmd_def hdr0_def CMDLEN_MAXBYTES_def)
  have o: "go_cmd 0 0 1 ! 0 = APP_CMD_U2F_AUTHENTICATE_GO"
    by (simp add: go_cmd_def)
  define d where "d = memcpy (data ?a1) (32 + 32) (go_cmd 0 0 1) 1 (64 + 1 + 4)"
  have d: "d = replicate 64 0 @ replicate 32 7 @ replicate 32 0 @ [0] @ [1, 0, 0, 1]"
    unfolding d_def by (simp add: memcpy_def go_cmd_def app0_def)
  obtain cs where
    q: "u2f_authenticate stub_prims tk1 (drop 1 ?rsp) d (drop 32 d) (drop 64 d)
          (drop 128 d) (drop 129 d) (device ?a1) =
        Some (0, [1, 0] @ replicate 64 (d ! 0 + drop 129 d ! 0) @ drop 66 (drop 1 ?rsp),
              (device ?a1)\<lparr>led := 2,
                 calls := calls (device ?a1) @ cs @
                   [Call_p256_ecdsa_sign (replicate 32 (d ! 0)) (replicate 32 (drop 129 d ! 0)) 32]\<rparr>)"
    using authenticate_stub_nocheck [of d "drop 32 d" "drop 64 d" "drop 129 d" "drop 1 ?rsp"
        "drop 128 d" "device ?a1"]
    by (auto simp: d nth_append CMDLEN_MAXBYTES_def)
  have v: "d ! 0 = 0" "drop 129 d ! 0 = 1"
    by (simp_all add: d nth_append)
  show ?thesis
    unfolding main_frame_go [OF h(1) c o] authenticate_go_ok [OF h(2) d_def q] v
    by (simp add: appreply_def app0_def CMDLEN_MAXBYTES_def STATUS_OK_def replicate_upd0)
qed

end
